theory Spec2Isabelle
  imports Complex_Main "HOL-Library.Char_ord" "HOL-Library.List_Lexorder"
begin

section \<open>Data model\<close>

text \<open>
  The pipeline's functions are thin compositions of pandas and json calls. The cells of
  a DataFrame are modelled as Python values: the three missing-value markers that
  pandas' \<open>isna\<close> recognises, booleans, unbounded integers, finite floats (as exact
  rationals; their textual form \<open>float.__repr__\<close> is a parameter \<open>fr\<close> of the
  rendering functions), strings (one \<open>char\<close> per code point below 256), tz-naive
  timestamps at second resolution, dicts with string keys in insertion order, and lists.
  Column dtypes and the row index are not modelled.
\<close>

datatype error = TypeError | KeyError | ValueError

datatype null = PyNone | NaN | NaT

datatype stamp = Stamp nat nat nat nat nat nat

datatype val =
    VNull null
  | VBool bool
  | VInt int
  | VFloat rat
  | VStr string
  | VTimestamp stamp
  | VDict "(string \<times> val) list"
  | VList "val list"

record table =
  columns :: "string list"
  rows :: "val list list"

definition wf_table :: "table \<Rightarrow> bool" where
  "wf_table t = list_all (\<lambda>r. length r = length (columns t)) (rows t)"

fun isna :: "val \<Rightarrow> bool" where
  "isna (VNull n) = True"
| "isna v = False"

text \<open>\<open>isinstance(x, (dict, list))\<close>; these are also the cells pandas cannot hash.\<close>

fun is_nested :: "val \<Rightarrow> bool" where
  "is_nested (VDict kvs) = True"
| "is_nested (VList xs) = True"
| "is_nested v = False"

section \<open>Text renderings\<close>

fun join :: "string \<Rightarrow> string list \<Rightarrow> string" where
  "join sep [] = []"
| "join sep [x] = x"
| "join sep (x # y # ys) = x @ sep @ join sep (y # ys)"

fun dec :: "nat \<Rightarrow> string" where
  "dec n = (if n < 10 then [char_of (48 + n)] else dec (n div 10) @ [char_of (48 + n mod 10)])"

definition int_repr :: "int \<Rightarrow> string" where
  "int_repr i = (if i < 0 then CHR ''-'' # dec (nat (- i)) else dec (nat i))"

definition hex_digit :: "nat \<Rightarrow> char" where
  "hex_digit n = (if n < 10 then char_of (48 + n) else char_of (87 + n))"

definition hex2 :: "nat \<Rightarrow> string" where
  "hex2 n = [hex_digit (n div 16 mod 16), hex_digit (n mod 16)]"

definition pad :: "nat \<Rightarrow> nat \<Rightarrow> string" where
  "pad w n = replicate (w - length (dec n)) CHR ''0'' @ dec n"

text \<open>\<open>str\<close> of a tz-naive pandas Timestamp without fractional seconds.\<close>

fun stamp_str :: "stamp \<Rightarrow> string" where
  "stamp_str (Stamp y mo d h mi s) =
     pad 4 y @ ''-'' @ pad 2 mo @ ''-'' @ pad 2 d @ '' '' @ pad 2 h @ '':'' @ pad 2 mi @ '':'' @ pad 2 s"

subsection \<open>json.dumps\<close>

text \<open>
  The encoder's string escaping with \<open>ensure_ascii=True\<close>: the quote and the backslash
  are escaped, the five short control escapes are used, and every other character
  outside the range from space to tilde becomes a four-digit \<open>\u\<close> escape.
\<close>

definition json_escape_char :: "char \<Rightarrow> string" where
  "json_escape_char c =
     (let n = (of_char c :: nat) in
      if c = CHR 0x22 then [CHR 0x5C, CHR 0x22]
      else if c = CHR 0x5C then [CHR 0x5C, CHR 0x5C]
      else if n = 10 then [CHR 0x5C, CHR ''n'']
      else if n = 13 then [CHR 0x5C, CHR ''r'']
      else if n = 9 then [CHR 0x5C, CHR ''t'']
      else if n = 8 then [CHR 0x5C, CHR ''b'']
      else if n = 12 then [CHR 0x5C, CHR ''f'']
      else if n < 32 \<or> 126 < n then [CHR 0x5C, CHR ''u'', CHR ''0'', CHR ''0''] @ hex2 n
      else [c])"

definition json_quote :: "string \<Rightarrow> string" where
  "json_quote s = CHR 0x22 # concat (map json_escape_char s) @ [CHR 0x22]"

text \<open>
  The json module raises TypeError on an object it has no encoding for; among the modelled
  values these are timestamps and NaT. None becomes \<open>null\<close> and, with the default
  \<open>allow_nan=True\<close>, the float NaN becomes \<open>NaN\<close>.
\<close>

fun json_serializable :: "val \<Rightarrow> bool" where
  "json_serializable (VNull n) = (n \<noteq> NaT)"
| "json_serializable (VTimestamp t) = False"
| "json_serializable (VDict kvs) = list_all (\<lambda>(k, v). json_serializable v) kvs"
| "json_serializable (VList xs) = list_all json_serializable xs"
| "json_serializable v = True"

text \<open>
  The text \<open>json.dumps(x, sort_keys=True)\<close> produces for a serializable value, with the
  default separators. The items of a dict are emitted in ascending key order.
\<close>

fun json_encode :: "(rat \<Rightarrow> string) \<Rightarrow> val \<Rightarrow> string" where
  "json_encode fr (VNull n) = (case n of PyNone \<Rightarrow> ''null'' | NaN \<Rightarrow> ''NaN'' | NaT \<Rightarrow> [])"
| "json_encode fr (VBool b) = (if b then ''true'' else ''false'')"
| "json_encode fr (VInt i) = int_repr i"
| "json_encode fr (VFloat q) = fr q"
| "json_encode fr (VStr s) = json_quote s"
| "json_encode fr (VTimestamp t) = []"
| "json_encode fr (VDict kvs) =
     ''{'' @ join '', '' (map (\<lambda>(k, v). json_quote k @ '': '' @ json_encode fr v) (sort_key fst kvs)) @ ''}''"
| "json_encode fr (VList xs) = ''['' @ join '', '' (map (json_encode fr) xs) @ '']''"

definition json_dumps :: "(rat \<Rightarrow> string) \<Rightarrow> val \<Rightarrow> error + string" where
  "json_dumps fr x = (if json_serializable x then Inr (json_encode fr x) else Inl TypeError)"

subsection \<open>str and repr\<close>

text \<open>
  \<open>repr\<close> of a Python string: double quotes are chosen when the text holds a single quote
  and no double quote; the chosen quote and the backslash are escaped; tab, newline and
  carriage return have short escapes; the remaining non-printable code points below 256
  are written \<open>\xNN\<close>.
\<close>

definition repr_escape_char :: "char \<Rightarrow> char \<Rightarrow> string" where
  "repr_escape_char q c =
     (let n = (of_char c :: nat) in
      if c = q \<or> c = CHR 0x5C then [CHR 0x5C, c]
      else if n = 9 then [CHR 0x5C, CHR ''t'']
      else if n = 10 then [CHR 0x5C, CHR ''n'']
      else if n = 13 then [CHR 0x5C, CHR ''r'']
      else if n < 32 \<or> (127 \<le> n \<and> n \<le> 160) \<or> n = 173 then [CHR 0x5C, CHR ''x''] @ hex2 n
      else [c])"

definition str_repr :: "string \<Rightarrow> string" where
  "str_repr s =
     (let q = (if CHR 0x27 \<in> set s \<and> CHR 0x22 \<notin> set s then CHR 0x22 else CHR 0x27)
      in q # concat (map (repr_escape_char q) s) @ [q])"

fun py_repr :: "(rat \<Rightarrow> string) \<Rightarrow> val \<Rightarrow> string" where
  "py_repr fr (VNull n) = (case n of PyNone \<Rightarrow> ''None'' | NaN \<Rightarrow> ''nan'' | NaT \<Rightarrow> ''NaT'')"
| "py_repr fr (VBool b) = (if b then ''True'' else ''False'')"
| "py_repr fr (VInt i) = int_repr i"
| "py_repr fr (VFloat q) = fr q"
| "py_repr fr (VStr s) = str_repr s"
| "py_repr fr (VTimestamp t) = ''Timestamp('' @ [CHR 0x27] @ stamp_str t @ [CHR 0x27] @ '')''"
| "py_repr fr (VDict kvs) =
     ''{'' @ join '', '' (map (\<lambda>(k, v). str_repr k @ '': '' @ py_repr fr v) kvs) @ ''}''"
| "py_repr fr (VList xs) = ''['' @ join '', '' (map (py_repr fr) xs) @ '']''"

fun py_str :: "(rat \<Rightarrow> string) \<Rightarrow> val \<Rightarrow> string" where
  "py_str fr (VStr s) = s"
| "py_str fr (VTimestamp t) = stamp_str t"
| "py_str fr v = py_repr fr v"

section \<open>The serializer\<close>

text \<open>
  \<open>_safe_serialize\<close> of data_processing/nodes.py: a dict or list is replaced by its JSON
  text with sorted keys, or by \<open>str(x)\<close> when the encoder raises; anything else is
  returned as it is.
\<close>

definition safe_serialize :: "(rat \<Rightarrow> string) \<Rightarrow> val \<Rightarrow> val" where
  "safe_serialize fr x =
     (if is_nested x then
        (case json_dumps fr x of
           Inr s \<Rightarrow> VStr s
         | Inl e \<Rightarrow> VStr (py_str fr x))
      else x)"

section \<open>The pandas operations the pipeline calls\<close>

text \<open>
  \<open>DataFrame.empty\<close>: no columns or no rows. \<open>drop_duplicates\<close> returns at once on an
  empty frame.
\<close>

definition df_empty :: "table \<Rightarrow> bool" where
  "df_empty t = (columns t = [] \<or> rows t = [])"

text \<open>
  Rows and keys are compared through hash tables, where all missing-value markers are
  alike, numbers are alike when they are equal in value (\<open>1\<close>, \<open>1.0\<close> and \<open>True\<close> are
  one key, as they are for Python's \<open>==\<close> and \<open>hash\<close>), and any other two cells are
  alike when they are equal. \<open>hash_key\<close> sends a cell to the representative of the
  cells alike to it.
\<close>

definition hash_key :: "val \<Rightarrow> val" where
  "hash_key v =
     (case v of
        VNull n \<Rightarrow> VNull NaN
      | VBool b \<Rightarrow> VFloat (if b then 1 else 0)
      | VInt i \<Rightarrow> VFloat (of_int i)
      | _ \<Rightarrow> v)"

definition alike :: "val list \<Rightarrow> val list \<Rightarrow> bool" where
  "alike a b = (map hash_key a = map hash_key b)"

fun keep_first :: "val list list \<Rightarrow> val list list \<Rightarrow> val list list" where
  "keep_first seen [] = []"
| "keep_first seen (r # rs) =
     (if map hash_key r \<in> set seen then keep_first seen rs
      else r # keep_first (map hash_key r # seen) rs)"

text \<open>
  \<open>drop_duplicates()\<close> keeps the first of each group of alike rows. Hashing a dict or a
  list raises TypeError, as the docstring of \<open>clean_tickets\<close> records.
\<close>

definition drop_duplicates :: "table \<Rightarrow> error + table" where
  "drop_duplicates t =
     (if df_empty t then Inr t
      else if list_ex (list_ex is_nested) (rows t) then Inl TypeError
      else Inr (t\<lparr>rows := keep_first [] (rows t)\<rparr>))"

definition dropna :: "table \<Rightarrow> table" where
  "dropna t = t\<lparr>rows := filter (\<lambda>r. \<not> list_ex isna r) (rows t)\<rparr>"

definition rename_columns :: "string \<Rightarrow> string \<Rightarrow> table \<Rightarrow> table" where
  "rename_columns old new t = t\<lparr>columns := map (\<lambda>c. if c = old then new else c) (columns t)\<rparr>"

definition applymap :: "(val \<Rightarrow> val) \<Rightarrow> table \<Rightarrow> table" where
  "applymap f t = t\<lparr>rows := map (map f) (rows t)\<rparr>"

text \<open>The positions of the columns carrying a label.\<close>

definition positions :: "string \<Rightarrow> table \<Rightarrow> nat list" where
  "positions name t = filter (\<lambda>i. columns t ! i = name) [0 ..< length (columns t)]"

text \<open>
  \<open>df[name]\<close> as a Series: KeyError when no column has the label. When several columns
  share it pandas returns a frame, which none of the callers here can consume; the model
  reports that as ValueError.
\<close>

definition getitem :: "table \<Rightarrow> string \<Rightarrow> error + val list" where
  "getitem t name =
     (case positions name t of
        [] \<Rightarrow> Inl KeyError
      | [i] \<Rightarrow> Inr (map (\<lambda>r. r ! i) (rows t))
      | _ \<Rightarrow> Inl ValueError)"

text \<open>\<open>df[name] = series\<close> for a label that one column carries.\<close>

definition setitem :: "table \<Rightarrow> string \<Rightarrow> val list \<Rightarrow> table" where
  "setitem t name cells =
     (case positions name t of
        [i] \<Rightarrow> t\<lparr>rows := map (\<lambda>(r, c). r[i := c]) (zip (rows t) cells)\<rparr>
      | _ \<Rightarrow> t)"

text \<open>\<open>df[name] = df[name].astype(str)\<close>: every cell under the label becomes its \<open>str\<close>.\<close>

definition astype_str :: "(rat \<Rightarrow> string) \<Rightarrow> string \<Rightarrow> table \<Rightarrow> table" where
  "astype_str fr name t =
     t\<lparr>rows := map (\<lambda>r. map (\<lambda>(c, v). if c = name then VStr (py_str fr v) else v) (zip (columns t) r))
                  (rows t)\<rparr>"

text \<open>
  \<open>pd.to_datetime\<close> with the default \<open>errors='raise'\<close>. A cell is rejected, read as
  the missing timestamp NaT, or read as a timestamp. A missing cell and the empty string
  are read as NaT and a timestamp is kept; what is made of any other cell is the
  parameter \<open>parse\<close>. One rejected cell makes the whole call raise ValueError.
\<close>

datatype parsed = Unparseable | Missing | Parsed stamp

definition read_datetime :: "(val \<Rightarrow> parsed) \<Rightarrow> val \<Rightarrow> parsed" where
  "read_datetime parse c =
     (case c of
        VNull n \<Rightarrow> Missing
      | VTimestamp t \<Rightarrow> Parsed t
      | VStr s \<Rightarrow> if s = [] then Missing else parse c
      | _ \<Rightarrow> parse c)"

fun datetime_cell :: "parsed \<Rightarrow> val" where
  "datetime_cell (Parsed s) = VTimestamp s"
| "datetime_cell p = VNull NaT"

definition to_datetime :: "(val \<Rightarrow> parsed) \<Rightarrow> val list \<Rightarrow> error + val list" where
  "to_datetime parse cells =
     (if list_ex (\<lambda>c. read_datetime parse c = Unparseable) cells then Inl ValueError
      else Inr (map (\<lambda>c. datetime_cell (read_datetime parse c)) cells))"

section \<open>Objects and in-place updates\<close>

text \<open>
  A DataFrame is an object: the caller and the callee hold references to it, and the
  \<open>inplace=True\<close> operations and column assignment change the object itself. The store
  is the list of live frames and a reference is an index into it.
\<close>

type_synonym ref = nat
type_synonym heap = "table list"
type_synonym 'a io = "heap \<Rightarrow> (error + 'a) \<times> heap"

definition return_io :: "'a \<Rightarrow> 'a io" where
  "return_io x = (\<lambda>h. (Inr x, h))"

definition bind_io :: "'a io \<Rightarrow> ('a \<Rightarrow> 'b io) \<Rightarrow> 'b io" where
  "bind_io m k = (\<lambda>h. case m h of (Inl e, h') \<Rightarrow> (Inl e, h') | (Inr x, h') \<Rightarrow> k x h')"

definition deref :: "ref \<Rightarrow> table io" where
  "deref r = (\<lambda>h. (Inr (h ! r), h))"

text \<open>An operation that replaces the frame behind a reference, or raises and leaves it.\<close>

definition inplace :: "(table \<Rightarrow> error + table) \<Rightarrow> ref \<Rightarrow> unit io" where
  "inplace f r = (\<lambda>h. case f (h ! r) of Inl e \<Rightarrow> (Inl e, h) | Inr t \<Rightarrow> (Inr (), h[r := t]))"

text \<open>An operation that builds a new frame.\<close>

definition new_frame :: "table \<Rightarrow> ref io" where
  "new_frame t = (\<lambda>h. (Inr (length h), h @ [t]))"

definition lift_io :: "error + 'a \<Rightarrow> 'a io" where
  "lift_io x = (\<lambda>h. (x, h))"

section \<open>data_processing/nodes.py\<close>

definition clean_customers :: "ref \<Rightarrow> ref io" where
  "clean_customers customers =
     bind_io (inplace drop_duplicates customers) (\<lambda>_.
     bind_io (inplace (\<lambda>t. Inr (dropna t)) customers) (\<lambda>_.
     return_io customers))"

definition assign_ordered_at :: "(val \<Rightarrow> parsed) \<Rightarrow> table \<Rightarrow> error + table" where
  "assign_ordered_at parse t =
     (case getitem t ''ordered_at'' of
        Inl e \<Rightarrow> Inl e
      | Inr cells \<Rightarrow>
          (case to_datetime parse cells of
             Inl e \<Rightarrow> Inl e
           | Inr stamps \<Rightarrow> Inr (setitem t ''ordered_at'' stamps)))"

definition clean_orders :: "(val \<Rightarrow> parsed) \<Rightarrow> ref \<Rightarrow> ref io" where
  "clean_orders parse orders =
     bind_io (deref orders) (\<lambda>t.
     bind_io (if ''id'' \<in> set (columns t)
              then inplace (\<lambda>t. Inr (rename_columns ''id'' ''order_id'' t)) orders
              else return_io ()) (\<lambda>_.
     bind_io (inplace drop_duplicates orders) (\<lambda>_.
     bind_io (inplace (\<lambda>t. Inr (dropna t)) orders) (\<lambda>_.
     bind_io (inplace (assign_ordered_at parse) orders) (\<lambda>_.
     return_io orders)))))"

definition clean_tickets :: "(rat \<Rightarrow> string) \<Rightarrow> ref \<Rightarrow> ref io" where
  "clean_tickets fr tickets0 =
     bind_io (deref tickets0) (\<lambda>t0.
     bind_io (new_frame (applymap (safe_serialize fr) t0)) (\<lambda>tickets.
     bind_io (deref tickets) (\<lambda>t.
     bind_io (if ''tags'' \<in> set (columns t)
              then inplace (\<lambda>t. Inr (astype_str fr ''tags'' t)) tickets
              else return_io ()) (\<lambda>_.
     bind_io (inplace drop_duplicates tickets) (\<lambda>_.
     bind_io (inplace (\<lambda>t. Inr (dropna t)) tickets) (\<lambda>_.
     return_io tickets))))))"

section \<open>The pandas operations of the reporting nodes\<close>

text \<open>
  \<open>Series.sum()\<close> and \<open>Series.mean()\<close> skip missing cells. Booleans count as 0 and 1; a
  cell that is not a number makes the reduction raise TypeError. The sum of no cells is
  the integer 0 and the mean of no cells is NaN. Arithmetic is exact.
\<close>

fun num_of :: "val \<Rightarrow> rat option" where
  "num_of (VBool b) = Some (if b then 1 else 0)"
| "num_of (VInt i) = Some (of_int i)"
| "num_of (VFloat q) = Some q"
| "num_of v = None"

fun int_of :: "val \<Rightarrow> int option" where
  "int_of (VBool b) = Some (if b then 1 else 0)"
| "int_of (VInt i) = Some i"
| "int_of v = None"

definition series_sum :: "val list \<Rightarrow> error + val" where
  "series_sum cells =
     (let xs = filter (\<lambda>c. \<not> isna c) cells in
      if list_ex (\<lambda>c. num_of c = None) xs then Inl TypeError
      else if list_all (\<lambda>c. int_of c \<noteq> None) xs then Inr (VInt (sum_list (map (\<lambda>c. the (int_of c)) xs)))
      else Inr (VFloat (sum_list (map (\<lambda>c. the (num_of c)) xs))))"

definition series_mean :: "val list \<Rightarrow> error + val" where
  "series_mean cells =
     (let xs = filter (\<lambda>c. \<not> isna c) cells in
      if list_ex (\<lambda>c. num_of c = None) xs then Inl TypeError
      else if xs = [] then Inr (VNull NaN)
      else Inr (VFloat (sum_list (map (\<lambda>c. the (num_of c)) xs) / of_nat (length xs))))"

text \<open>
  \<open>pd.merge\<close> compares the dtypes of the two key columns before it joins. Dtypes are
  not stored in this model; the dtype of a key column is read off its cells, as pandas
  infers it when the frame is built: all integers, all floats (NaN among them), all
  booleans, all timestamps (NaT among them), and \<open>object\<close> for anything else and for a
  column without cells.
\<close>

datatype dtype = Int64 | Float64 | BoolDtype | Datetime64 | Object

fun is_int_cell :: "val \<Rightarrow> bool" where
  "is_int_cell (VInt i) = True"
| "is_int_cell v = False"

fun is_float_cell :: "val \<Rightarrow> bool" where
  "is_float_cell (VFloat q) = True"
| "is_float_cell (VNull n) = (n = NaN)"
| "is_float_cell v = False"

fun is_bool_cell :: "val \<Rightarrow> bool" where
  "is_bool_cell (VBool b) = True"
| "is_bool_cell v = False"

fun is_datetime :: "val \<Rightarrow> bool" where
  "is_datetime (VTimestamp t) = True"
| "is_datetime (VNull n) = (n = NaT)"
| "is_datetime v = False"

definition column_dtype :: "val list \<Rightarrow> dtype" where
  "column_dtype cells =
     (if cells = [] then Object
      else if list_all is_int_cell cells then Int64
      else if list_all is_float_cell cells then Float64
      else if list_all is_bool_cell cells then BoolDtype
      else if list_all is_datetime cells then Datetime64
      else Object)"

text \<open>
  The keys that \<open>pd.merge\<close> refuses with ValueError: when both key columns have cells
  and their dtypes differ, a datetime key against any other key, and an integer or float
  key against an object key that holds no integer (text, for one). Every other pair of
  key columns is joined.
\<close>

definition merge_dtype_error :: "val list \<Rightarrow> val list \<Rightarrow> bool" where
  "merge_dtype_error lk rk =
     (let dl = column_dtype lk; dr = column_dtype rk in
      lk \<noteq> [] \<and> rk \<noteq> [] \<and> dl \<noteq> dr \<and>
      (dl = Datetime64 \<or> dr = Datetime64
       \<or> (dl = Object \<and> (dr = Int64 \<or> dr = Float64) \<and> \<not> list_ex is_int_cell lk)
       \<or> (dr = Object \<and> (dl = Int64 \<or> dl = Float64) \<and> \<not> list_ex is_int_cell rk)))"

text \<open>
  An integer key column joined with a float key column is cast to float first, so the
  keys of the joined rows are floats.
\<close>

definition float_key :: "val \<Rightarrow> val" where
  "float_key v = (case v of VInt i \<Rightarrow> VFloat (of_int i) | _ \<Rightarrow> v)"

definition left_key_row :: "val list \<Rightarrow> val list \<Rightarrow> nat \<Rightarrow> val list \<Rightarrow> val list" where
  "left_key_row lk rk i lr =
     (if column_dtype lk = Int64 \<and> column_dtype rk = Float64 then lr[i := float_key (lr ! i)] else lr)"

text \<open>
  \<open>pd.merge(left, right, on=key)\<close>: the inner join. Each left row is paired, in order,
  with every right row whose key is alike (missing keys match each other); the right
  key column is dropped, and a label that both frames carry outside the key gets the
  suffix \<open>_x\<close> on the left and \<open>_y\<close> on the right. A frame without the key column
  raises KeyError, key columns of dtypes that do not go together raise ValueError, and a
  nested key cannot be hashed.
\<close>

definition drop_nth :: "nat \<Rightarrow> 'a list \<Rightarrow> 'a list" where
  "drop_nth j xs = take j xs @ drop (Suc j) xs"

definition merged_columns :: "string \<Rightarrow> table \<Rightarrow> nat \<Rightarrow> table \<Rightarrow> string list" where
  "merged_columns key l j r =
     map (\<lambda>c. if c \<noteq> key \<and> c \<in> set (columns r) then c @ ''_x'' else c) (columns l) @
     map (\<lambda>c. if c \<in> set (columns l) then c @ ''_y'' else c) (drop_nth j (columns r))"

definition merge :: "table \<Rightarrow> table \<Rightarrow> string \<Rightarrow> error + table" where
  "merge l r key =
     (case (positions key l, positions key r) of
        ([], _) \<Rightarrow> Inl KeyError
      | (_, []) \<Rightarrow> Inl KeyError
      | ([i], [j]) \<Rightarrow>
          if merge_dtype_error (map (\<lambda>lr. lr ! i) (rows l)) (map (\<lambda>rr. rr ! j) (rows r))
          then Inl ValueError
          else if list_ex (\<lambda>lr. is_nested (lr ! i)) (rows l) \<or> list_ex (\<lambda>rr. is_nested (rr ! j)) (rows r)
          then Inl TypeError
          else Inr \<lparr>columns = merged_columns key l j r,
                    rows = concat (map (\<lambda>lr. map (\<lambda>rr. left_key_row (map (\<lambda>lr. lr ! i) (rows l))
                                                           (map (\<lambda>rr. rr ! j) (rows r)) i lr @ drop_nth j rr)
                                   (filter (\<lambda>rr. hash_key (rr ! j) = hash_key (lr ! i)) (rows r)))
                                 (rows l))\<rparr>
      | _ \<Rightarrow> Inl ValueError)"

text \<open>
  The order in which \<open>groupby\<close> lists its groups (\<open>sort=True\<close>): numbers before strings
  before timestamps, each kind in its own order.
\<close>

fun sort_rank :: "val \<Rightarrow> nat" where
  "sort_rank (VBool b) = 0"
| "sort_rank (VInt i) = 0"
| "sort_rank (VFloat q) = 0"
| "sort_rank (VStr s) = 1"
| "sort_rank (VTimestamp t) = 2"
| "sort_rank v = 3"

fun stamp_fields :: "stamp \<Rightarrow> nat list" where
  "stamp_fields (Stamp y mo d h mi s) = [y, mo, d, h, mi, s]"

fun key_le :: "val \<Rightarrow> val \<Rightarrow> bool" where
  "key_le (VStr a) (VStr b) = (a \<le> b)"
| "key_le (VTimestamp a) (VTimestamp b) = (stamp_fields a \<le> stamp_fields b)"
| "key_le a b =
     (if sort_rank a \<noteq> sort_rank b then sort_rank a < sort_rank b
      else case (num_of a, num_of b) of (Some x, Some y) \<Rightarrow> x \<le> y | _ \<Rightarrow> True)"

fun insert_key :: "val \<Rightarrow> val list \<Rightarrow> val list" where
  "insert_key k [] = [k]"
| "insert_key k (x # xs) = (if key_le k x then k # x # xs else x # insert_key k xs)"

definition sort_keys :: "val list \<Rightarrow> val list" where
  "sort_keys ks = foldr insert_key ks []"

text \<open>The first of each group of alike keys, in the order of their first occurrence.\<close>

fun unique_keys :: "val list \<Rightarrow> val list \<Rightarrow> val list" where
  "unique_keys seen [] = []"
| "unique_keys seen (k # ks) =
     (if hash_key k \<in> set seen then unique_keys seen ks
      else k # unique_keys (hash_key k # seen) ks)"

text \<open>
  \<open>df.groupby(key)[col].count().reset_index()\<close>: one row per group of alike keys that
  are not missing (\<open>dropna=True\<close>), holding the key and the number of rows of the group
  whose cell under \<open>col\<close> is not missing.
\<close>

definition groupby_count :: "table \<Rightarrow> string \<Rightarrow> string \<Rightarrow> error + table" where
  "groupby_count t key col =
     (case (positions key t, positions col t) of
        ([], _) \<Rightarrow> Inl KeyError
      | (_, []) \<Rightarrow> Inl KeyError
      | ([i], [j]) \<Rightarrow>
          Inr \<lparr>columns = [key, col],
               rows = map (\<lambda>k. [k, VInt (int (length (filter (\<lambda>r. hash_key (r ! i) = hash_key k \<and> \<not> isna (r ! j))
                                                           (rows t))))])
                          (sort_keys (unique_keys [] (filter (\<lambda>k. \<not> isna k) (map (\<lambda>r. r ! i) (rows t)))))\<rparr>
      | _ \<Rightarrow> Inl ValueError)"

section \<open>reporting/nodes.py\<close>

definition create_average_order_value :: "ref \<Rightarrow> ref io" where
  "create_average_order_value orders =
     bind_io (deref orders) (\<lambda>t.
     bind_io (lift_io (getitem t ''subtotal'')) (\<lambda>subtotal.
     bind_io (lift_io (series_mean subtotal)) (\<lambda>avg_order_value.
     new_frame \<lparr>columns = [''average_order_value''], rows = [[avg_order_value]]\<rparr>)))"

definition create_tickets_per_order :: "ref \<Rightarrow> ref \<Rightarrow> ref io" where
  "create_tickets_per_order orders tickets =
     bind_io (deref orders) (\<lambda>ot.
     bind_io (deref tickets) (\<lambda>tt.
     bind_io (lift_io (merge ot tt ''order_id'')) (\<lambda>order_tickets.
     bind_io (lift_io (groupby_count order_tickets ''order_id'' ''ticket_id'')) (\<lambda>counts.
     bind_io (new_frame counts) (\<lambda>tickets_per_order.
     bind_io (inplace (\<lambda>t. Inr (rename_columns ''ticket_id'' ''number_of_tickets'' t)) tickets_per_order) (\<lambda>_.
     return_io tickets_per_order))))))"

definition create_total_revenue :: "ref \<Rightarrow> ref io" where
  "create_total_revenue orders =
     bind_io (deref orders) (\<lambda>t.
     bind_io (lift_io (getitem t ''subtotal'')) (\<lambda>subtotal.
     bind_io (lift_io (series_sum subtotal)) (\<lambda>total_revenue.
     new_frame \<lparr>columns = [''total_revenue''], rows = [[total_revenue]]\<rparr>)))"

section \<open>Structural equality up to key order\<close>

text \<open>
  Two values differ only in the insertion order of dict keys, at any depth: scalars are
  the same, lists agree element by element, and two dicts (each with distinct keys, as
  every Python dict has) carry the same keys with values that again differ only in key
  order.
\<close>

inductive key_order_equiv :: "val \<Rightarrow> val \<Rightarrow> bool" where
  scalar: "\<not> is_nested x \<Longrightarrow> key_order_equiv x x"
| lists: "list_all2 key_order_equiv xs ys \<Longrightarrow> key_order_equiv (VList xs) (VList ys)"
| dicts: "distinct (map fst a) \<Longrightarrow> distinct (map fst b) \<Longrightarrow> length a = length b \<Longrightarrow>
          (\<forall>k v. (k, v) \<in> set a \<longrightarrow> (\<exists>w. (k, w) \<in> set b \<and> key_order_equiv v w)) \<Longrightarrow>
          key_order_equiv (VDict a) (VDict b)"

section \<open>Intermediate frames\<close>


text \<open>What \<open>drop_duplicates\<close> leaves of a frame whose cells can all be hashed.\<close>

definition dedup :: "table \<Rightarrow> table" where
  "dedup t = (if df_empty t then t else t\<lparr>rows := keep_first [] (rows t)\<rparr>)"

text \<open>
  One row of the tickets frame just before \<open>drop_duplicates\<close>: every cell serialized,
  then the cells under \<open>tags\<close> turned into their \<open>str\<close>.
\<close>

definition ticket_row :: "(rat \<Rightarrow> string) \<Rightarrow> string list \<Rightarrow> val list \<Rightarrow> val list" where
  "ticket_row fr cols r =
     (if ''tags'' \<in> set cols
      then map (\<lambda>(c, v). if c = ''tags'' then VStr (py_str fr v) else v) (zip cols (map (safe_serialize fr) r))
      else map (safe_serialize fr) r)"

text \<open>The orders frame after the renaming step of \<open>clean_orders\<close>.\<close>

definition renamed_orders :: "table \<Rightarrow> table" where
  "renamed_orders t = (if ''id'' \<in> set (columns t) then rename_columns ''id'' ''order_id'' t else t)"

text \<open>The tickets frame just before \<open>drop_duplicates\<close>.\<close>

definition tickets_frame :: "(rat \<Rightarrow> string) \<Rightarrow> table \<Rightarrow> table" where
  "tickets_frame fr t = \<lparr>columns = columns t, rows = map (ticket_row fr (columns t)) (rows t)\<rparr>"

section \<open>Example frames\<close>

text \<open>
  The frames the cleaning tests start from, cut down to a few columns: each has a
  repeated row and a row with a missing cell, and the tickets carry nested tags.
\<close>

definition raw_customers :: table where
  "raw_customers = \<lparr>columns = [''id'', ''name'', ''email''],
                     rows = [[VInt 1, VStr ''Alice'', VStr ''a@test.com''],
                             [VInt 2, VStr ''Bob'', VStr ''b@test.com''],
                             [VInt 1, VStr ''Alice'', VStr ''a@test.com''],
                             [VInt 3, VNull PyNone, VStr ''c@test.com'']]\<rparr>"

definition raw_orders :: table where
  "raw_orders = \<lparr>columns = [''id'', ''customer'', ''ordered_at'', ''subtotal''],
                  rows = [[VStr ''ORD-001'', VFloat 1, VStr ''2024-01-01'', VFloat 100],
                          [VStr ''ORD-002'', VFloat 2, VStr ''2024-01-02'', VFloat 150],
                          [VStr ''ORD-001'', VFloat 1, VStr ''2024-01-01'', VFloat 100],
                          [VStr ''ORD-003'', VNull NaN, VStr ''2024-01-03'', VFloat 200]]\<rparr>"

definition raw_tickets :: table where
  "raw_tickets = \<lparr>columns = [''ticket_id'', ''order_id'', ''status'', ''tags''],
                   rows = [[VStr ''TCK-001'', VStr ''ORD-001'', VStr ''resolved'',
                            VList [VStr ''order'', VStr ''delivery'']],
                           [VStr ''TCK-002'', VStr ''ORD-002'', VStr ''open'',
                            VDict [(''category'', VStr ''billing'')]],
                           [VStr ''TCK-001'', VStr ''ORD-001'', VStr ''resolved'',
                            VList [VStr ''order'', VStr ''delivery'']],
                           [VStr ''TCK-003'', VStr ''ORD-003'', VNull PyNone,
                            VList [VStr ''refund'']]]\<rparr>"

definition dup_customers :: table where
  "dup_customers = \<lparr>columns = [''id'', ''name''],
                     rows = [[VInt 1, VStr ''Alice''], [VInt 1, VStr ''Alice'']]\<rparr>"


definition sample_orders :: table where
  "sample_orders = \<lparr>columns = [''id'', ''ordered_at''],
                     rows = [[VStr ''ORD-001'', VStr ''2024-01-01''], [VStr ''ORD-002'', VStr ''2024-01-02'']]\<rparr>"

text \<open>
  A stand-in for what \<open>pd.to_datetime\<close> makes of one cell, for the examples: it reads
  calendar dates written \<open>YYYY-MM-DD\<close>, passes timestamps through, reads a missing cell
  and the empty string as NaT, and rejects everything else.
\<close>

definition is_digit :: "char \<Rightarrow> bool" where
  "is_digit c = (48 \<le> (of_char c :: nat) \<and> (of_char c :: nat) \<le> 57)"

definition digits_val :: "string \<Rightarrow> nat" where
  "digits_val s = foldl (\<lambda>n c. 10 * n + (of_char c - 48)) 0 s"

definition parse_ymd :: "val \<Rightarrow> parsed" where
  "parse_ymd v =
     (case v of
        VNull n \<Rightarrow> Missing
      | VTimestamp t \<Rightarrow> Parsed t
      | VStr s \<Rightarrow>
          if s = [] then Missing
          else if length s = 10 \<and> s ! 4 = CHR ''-'' \<and> s ! 7 = CHR ''-''
                  \<and> list_all is_digit (take 4 s @ take 2 (drop 5 s) @ drop 8 s)
                  \<and> 1 \<le> digits_val (take 2 (drop 5 s)) \<and> digits_val (take 2 (drop 5 s)) \<le> 12
                  \<and> 1 \<le> digits_val (drop 8 s) \<and> digits_val (drop 8 s) \<le> 31
          then Parsed (Stamp (digits_val (take 4 s)) (digits_val (take 2 (drop 5 s))) (digits_val (drop 8 s)) 0 0 0)
          else Unparseable
      | _ \<Rightarrow> Unparseable)"

definition null_tag_tickets :: table where
  "null_tag_tickets = \<lparr>columns = [''ticket_id'', ''tags''],
                        rows = [[VStr ''T1'', VNull PyNone], [VStr ''T2'', VList [VStr ''refund'']]]\<rparr>"

text \<open>The same tags written with two key orders, and the same with a timestamp among them.\<close>

definition tags_ab :: val where
  "tags_ab = VDict [(''a'', VInt 1), (''b'', VList [VStr ''x''])]"

definition tags_ba :: val where
  "tags_ba = VDict [(''b'', VList [VStr ''x'']), (''a'', VInt 1)]"

definition stamped_ab :: val where
  "stamped_ab = VDict [(''a'', VTimestamp (Stamp 2024 1 1 0 0 0)), (''b'', VInt 1)]"

definition stamped_ba :: val where
  "stamped_ba = VDict [(''b'', VInt 1), (''a'', VTimestamp (Stamp 2024 1 1 0 0 0))]"

definition reordered_tickets :: table where
  "reordered_tickets = \<lparr>columns = [''ticket_id'', ''tags''],
                         rows = [[VStr ''T1'', tags_ab], [VStr ''T1'', tags_ba]]\<rparr>"

text \<open>Two rows that differ in the key order of their tags and have no status.\<close>

definition null_status_tickets :: table where
  "null_status_tickets = \<lparr>columns = [''ticket_id'', ''status'', ''tags''],
                           rows = [[VStr ''T1'', VNull PyNone, tags_ab], [VStr ''T1'', VNull PyNone, tags_ba]]\<rparr>"

definition stamped_tickets :: table where
  "stamped_tickets = \<lparr>columns = [''ticket_id'', ''tags''],
                       rows = [[VStr ''T1'', stamped_ab], [VStr ''T1'', stamped_ba]]\<rparr>"

text \<open>Orders whose first row has an unreadable date and a missing \<open>tax_paid\<close>.\<close>

definition bad_date_orders :: table where
  "bad_date_orders = \<lparr>columns = [''id'', ''ordered_at'', ''tax_paid''],
                       rows = [[VStr ''ORD-001'', VStr ''yesterday'', VNull NaN],
                               [VStr ''ORD-002'', VStr ''2024-01-02'', VInt 15]]\<rparr>"

text \<open>Orders with an unreadable date in a complete row.\<close>

definition bad_date_complete :: table where
  "bad_date_complete = \<lparr>columns = [''id'', ''ordered_at'', ''tax_paid''],
                         rows = [[VStr ''ORD-001'', VStr ''yesterday'', VInt 10],
                                 [VStr ''ORD-002'', VStr ''2024-01-02'', VInt 15]]\<rparr>"

text \<open>Orders with an empty date in a complete row.\<close>

definition blank_date_orders :: table where
  "blank_date_orders = \<lparr>columns = [''id'', ''ordered_at''],
                         rows = [[VStr ''ORD-001'', VStr []], [VStr ''ORD-002'', VStr ''2024-01-02'']]\<rparr>"

text \<open>A frame with neither an \<open>id\<close> nor an \<open>order_id\<close> column.\<close>

definition keyless_orders :: table where
  "keyless_orders = \<lparr>columns = [''customer'', ''ordered_at''],
                      rows = [[VInt 1, VStr ''2024-01-01'']]\<rparr>"

section \<open>Reading a column\<close>



text \<open>Orders in which one order id appears twice, and one ticket for it.\<close>

definition repeated_orders :: table where
  "repeated_orders = \<lparr>columns = [''order_id'', ''customer''],
                       rows = [[VStr ''ORD-001'', VInt 1], [VStr ''ORD-001'', VInt 2],
                               [VStr ''ORD-002'', VInt 3]]\<rparr>"

definition one_ticket :: table where
  "one_ticket = \<lparr>columns = [''ticket_id'', ''order_id''],
                  rows = [[VStr ''TCK-001'', VStr ''ORD-001'']]\<rparr>"


text \<open>Orders whose ids are integers.\<close>

definition int_id_orders :: table where
  "int_id_orders = \<lparr>columns = [''order_id'', ''subtotal''],
                     rows = [[VInt 1, VInt 100], [VInt 2, VInt 150]]\<rparr>"

text \<open>The orders and tickets of the reporting tests.\<close>

definition three_orders :: table where
  "three_orders = \<lparr>columns = [''order_id'', ''subtotal''],
                    rows = [[VStr ''ORD-001'', VInt 100], [VStr ''ORD-002'', VInt 150],
                            [VStr ''ORD-003'', VInt 200]]\<rparr>"

definition three_tickets :: table where
  "three_tickets = \<lparr>columns = [''ticket_id'', ''order_id''],
                     rows = [[VStr ''TCK-001'', VStr ''ORD-001''], [VStr ''TCK-002'', VStr ''ORD-001''],
                             [VStr ''TCK-003'', VStr ''ORD-002'']]\<rparr>"

section \<open>json.loads\<close>

text \<open>
  The decoder of the json module, for texts over the modelled characters. It skips
  blanks where JSON allows them, reads strings with their escapes (an escape above
  code point 255 has no modelled character and makes the model give up), the literals
  \<open>null\<close>, \<open>true\<close>, \<open>false\<close> and \<open>NaN\<close>, integers, and floats through the parameter
  \<open>fp\<close>, which stands for \<open>float\<close> on a number token that is not an integer literal.
  A repeated key keeps its first position and takes the last value, as a dict does.
  \<open>None\<close> stands for JSONDecodeError.
\<close>

definition is_ws :: "char \<Rightarrow> bool" where
  "is_ws c = (c = CHR '' '' \<or> c = CHR 0x09 \<or> c = CHR 0x0A \<or> c = CHR 0x0D)"

definition skip_ws :: "string \<Rightarrow> string" where
  "skip_ws s = dropWhile is_ws s"

definition hex_val :: "char \<Rightarrow> nat option" where
  "hex_val c =
     (let n = (of_char c :: nat) in
      if 48 \<le> n \<and> n \<le> 57 then Some (n - 48)
      else if 97 \<le> n \<and> n \<le> 102 then Some (n - 87)
      else if 65 \<le> n \<and> n \<le> 70 then Some (n - 55)
      else None)"

definition unescape :: "char \<Rightarrow> char option" where
  "unescape c =
     (if c = CHR 0x22 then Some (CHR 0x22)
      else if c = CHR 0x5C then Some (CHR 0x5C)
      else if c = CHR ''/'' then Some (CHR ''/'')
      else if c = CHR ''b'' then Some (CHR 0x08)
      else if c = CHR ''f'' then Some (CHR 0x0C)
      else if c = CHR ''n'' then Some (CHR 0x0A)
      else if c = CHR ''r'' then Some (CHR 0x0D)
      else if c = CHR ''t'' then Some (CHR 0x09)
      else None)"

text \<open>The text after an opening quote, up to the closing quote.\<close>

fun scan_string :: "string \<Rightarrow> string \<Rightarrow> (string \<times> string) option" where
  "scan_string acc [] = None"
| "scan_string acc (c # s) =
     (if c = CHR 0x22 then Some (acc, s)
      else if c = CHR 0x5C then
        (case s of
           [] \<Rightarrow> None
         | e # s1 \<Rightarrow>
             if e = CHR ''u'' then
               (case s1 of
                  a # b # c1 # d # s2 \<Rightarrow>
                    (case (hex_val a, hex_val b, hex_val c1, hex_val d) of
                       (Some x3, Some x2, Some x1, Some x0) \<Rightarrow>
                         if x3 = 0 \<and> x2 = 0 then scan_string (acc @ [char_of (16 * x1 + x0)]) s2
                         else None
                     | _ \<Rightarrow> None)
                | _ \<Rightarrow> None)
             else (case unescape e of
                     Some ch \<Rightarrow> scan_string (acc @ [ch]) s1
                   | None \<Rightarrow> None))
      else if (of_char c :: nat) < 32 then None
      else scan_string (acc @ [c]) s)"

definition is_numchar :: "char \<Rightarrow> bool" where
  "is_numchar c = (is_digit c \<or> c = CHR ''-'' \<or> c = CHR ''+'' \<or> c = CHR ''.'' \<or> c = CHR ''e'' \<or> c = CHR ''E'')"

text \<open>The integer literals of JSON: an optional minus, then \<open>0\<close> or digits that do not start with \<open>0\<close>.\<close>

definition is_nat_literal :: "string \<Rightarrow> bool" where
  "is_nat_literal s = (s \<noteq> [] \<and> list_all is_digit s \<and> (hd s = CHR ''0'' \<longrightarrow> s = ''0''))"

definition is_int_literal :: "string \<Rightarrow> bool" where
  "is_int_literal s = (case s of c # r \<Rightarrow> if c = CHR ''-'' then is_nat_literal r else is_nat_literal s | [] \<Rightarrow> False)"

definition int_of_literal :: "string \<Rightarrow> int" where
  "int_of_literal s = (case s of c # r \<Rightarrow> if c = CHR ''-'' then - int (digits_val r) else int (digits_val s) | [] \<Rightarrow> 0)"

definition scan_number :: "(string \<Rightarrow> rat option) \<Rightarrow> string \<Rightarrow> (val \<times> string) option" where
  "scan_number fp s =
     (let tok = takeWhile is_numchar s; rest = dropWhile is_numchar s in
      if is_int_literal tok then Some (VInt (int_of_literal tok), rest)
      else map_option (\<lambda>q. (VFloat q, rest)) (fp tok))"

text \<open>Setting a key of a dict.\<close>

fun dict_set :: "(string \<times> val) list \<Rightarrow> string \<Rightarrow> val \<Rightarrow> (string \<times> val) list" where
  "dict_set [] k v = [(k, v)]"
| "dict_set ((k', v') # kvs) k v = (if k' = k then (k, v) # kvs else (k', v') # dict_set kvs k v)"

datatype task = PValue | PElements "val list" | PMembers "(string \<times> val) list"

partial_function (option) parse_json :: "(string \<Rightarrow> rat option) \<Rightarrow> task \<Rightarrow> string \<Rightarrow> (val \<times> string) option" where
  "parse_json fp t s =
     (case t of
        PValue \<Rightarrow>
          (case skip_ws s of
             [] \<Rightarrow> None
           | c # r \<Rightarrow>
               if c = CHR ''['' then
                 (case skip_ws r of
                    [] \<Rightarrow> None
                  | c' # r' \<Rightarrow> if c' = CHR '']'' then Some (VList [], r') else parse_json fp (PElements []) (c' # r'))
               else if c = CHR ''{'' then
                 (case skip_ws r of
                    [] \<Rightarrow> None
                  | c' # r' \<Rightarrow> if c' = CHR ''}'' then Some (VDict [], r') else parse_json fp (PMembers []) (c' # r'))
               else if c = CHR 0x22 then map_option (\<lambda>(str, r'). (VStr str, r')) (scan_string [] r)
               else if take 4 (c # r) = ''null'' then Some (VNull PyNone, drop 4 (c # r))
               else if take 4 (c # r) = ''true'' then Some (VBool True, drop 4 (c # r))
               else if take 5 (c # r) = ''false'' then Some (VBool False, drop 5 (c # r))
               else if take 3 (c # r) = ''NaN'' then Some (VNull NaN, drop 3 (c # r))
               else if c = CHR ''-'' \<or> is_digit c then scan_number fp (c # r)
               else None)
      | PElements acc \<Rightarrow>
          Option.bind (parse_json fp PValue s) (\<lambda>(v, r).
            case skip_ws r of
              [] \<Rightarrow> None
            | c # r' \<Rightarrow>
                if c = CHR '','' then parse_json fp (PElements (acc @ [v])) (skip_ws r')
                else if c = CHR '']'' then Some (VList (acc @ [v]), r')
                else None)
      | PMembers acc \<Rightarrow>
          (case s of
             [] \<Rightarrow> None
           | q # s1 \<Rightarrow>
               if q = CHR 0x22 then
                 Option.bind (scan_string [] s1) (\<lambda>(k, r).
                   case skip_ws r of
                     [] \<Rightarrow> None
                   | c # r1 \<Rightarrow>
                       if c = CHR '':'' then
                         Option.bind (parse_json fp PValue r1) (\<lambda>(v, r2).
                           case skip_ws r2 of
                             [] \<Rightarrow> None
                           | c' # r3 \<Rightarrow>
                               if c' = CHR '','' then parse_json fp (PMembers (dict_set acc k v)) (skip_ws r3)
                               else if c' = CHR ''}'' then Some (VDict (dict_set acc k v), r3)
                               else None)
                       else None)
               else None))"

declare parse_json.simps [code]

definition json_loads :: "(string \<Rightarrow> rat option) \<Rightarrow> string \<Rightarrow> val option" where
  "json_loads fp s =
     (case parse_json fp PValue s of
        None \<Rightarrow> None
      | Some (v, rest) \<Rightarrow> if skip_ws rest = [] then Some v else None)"

section \<open>What a round trip through JSON preserves\<close>

text \<open>The value with the items of every dict in ascending key order.\<close>

fun sorted_keys :: "val \<Rightarrow> val" where
  "sorted_keys (VDict kvs) = VDict (map (\<lambda>(k, v). (k, sorted_keys v)) (sort_key fst kvs))"
| "sorted_keys (VList xs) = VList (map sorted_keys xs)"
| "sorted_keys v = v"

text \<open>Every dict in the value has distinct keys, as every Python dict has.\<close>

fun distinct_keys :: "val \<Rightarrow> bool" where
  "distinct_keys (VDict kvs) = (distinct (map fst kvs) \<and> list_all (\<lambda>(k, v). distinct_keys v) kvs)"
| "distinct_keys (VList xs) = list_all distinct_keys xs"
| "distinct_keys v = True"

text \<open>
  What the round trip needs of the two float conversions, on the floats of a value:
  \<open>repr\<close> writes a number token that is not an integer literal, and \<open>float\<close> reads that
  token back as the same number.
\<close>

definition float_token :: "string \<Rightarrow> bool" where
  "float_token s = (s \<noteq> [] \<and> list_all is_numchar s \<and> (hd s = CHR ''-'' \<or> is_digit (hd s)) \<and> \<not> is_int_literal s)"

fun floats_decodable :: "(rat \<Rightarrow> string) \<Rightarrow> (string \<Rightarrow> rat option) \<Rightarrow> val \<Rightarrow> bool" where
  "floats_decodable fr fp (VFloat q) = (float_token (fr q) \<and> fp (fr q) = Some q)"
| "floats_decodable fr fp (VDict kvs) = list_all (\<lambda>(k, v). floats_decodable fr fp v) kvs"
| "floats_decodable fr fp (VList xs) = list_all (floats_decodable fr fp) xs"
| "floats_decodable fr fp v = True"

text \<open>What may follow a value inside a JSON text: nothing, a comma or a closing bracket.\<close>

definition delimited :: "string \<Rightarrow> bool" where
  "delimited rest = (case rest of [] \<Rightarrow> True | c # r \<Rightarrow> c = CHR '','' \<or> c = CHR '']'' \<or> c = CHR ''}'')"

text \<open>The first character of an encoded value starts a value.\<close>

definition value_start :: "char \<Rightarrow> bool" where
  "value_start c = (c = CHR ''['' \<or> c = CHR ''{'' \<or> c = CHR 0x22 \<or> c = CHR ''n'' \<or> c = CHR ''N''
                     \<or> c = CHR ''t'' \<or> c = CHR ''f'' \<or> c = CHR ''-'' \<or> is_digit c)"

text \<open>Example values and stand-ins for the two float conversions on the one float they hold.\<close>

definition nested_sample :: val where
  "nested_sample =
     VList [VInt (- 12), VFloat (3 / 2),
            VDict [(''b'', VNull PyNone), (''a'', VStr [CHR ''x'', CHR 0x22, CHR ''y''])],
            VBool True]"

definition repr_sample :: "rat \<Rightarrow> string" where
  "repr_sample q = (if q = 3 / 2 then ''1.5'' else [])"

definition float_sample :: "string \<Rightarrow> rat option" where
  "float_sample s = (if s = ''1.5'' then Some (3 / 2) else None)"

definition stamped_list :: val where
  "stamped_list = VList [VTimestamp (Stamp 2024 1 1 0 0 0)]"

section \<open>Facts about the pandas operations\<close>

lemma keep_first_subset: "set (keep_first seen rs) \<subseteq> set rs"
  by (induction rs arbitrary: seen) auto

lemma keep_first_keys_fresh: "r \<in> set (keep_first seen rs) \<Longrightarrow> map hash_key r \<notin> set seen"
proof (induction rs arbitrary: seen)
  case Nil
  then show ?case by simp
next
  case (Cons x rs)
  show ?case
  proof (cases "map hash_key x \<in> set seen")
    case True
    then show ?thesis using Cons by simp
  next
    case False
    then have "r = x \<or> r \<in> set (keep_first (map hash_key x # seen) rs)"
      using Cons.prems by simp
    then show ?thesis
    proof
      assume "r = x" then show ?thesis using False by simp
    next
      assume "r \<in> set (keep_first (map hash_key x # seen) rs)"
      from Cons.IH [OF this] show ?thesis by simp
    qed
  qed
qed

lemma keep_first_distinct_keys: "distinct (map (map hash_key) (keep_first seen rs))"
proof (induction rs arbitrary: seen)
  case Nil
  show ?case by simp
next
  case (Cons r rs)
  show ?case
  proof (cases "map hash_key r \<in> set seen")
    case True
    then show ?thesis using Cons.IH by simp
  next
    case False
    have "map hash_key r \<notin> map hash_key ` set (keep_first (map hash_key r # seen) rs)"
    proof
      assume "map hash_key r \<in> map hash_key ` set (keep_first (map hash_key r # seen) rs)"
      then obtain e where e: "e \<in> set (keep_first (map hash_key r # seen) rs)" "map hash_key r = map hash_key e"
        by auto
      from keep_first_keys_fresh [OF e(1)] e(2) show False by simp
    qed
    then show ?thesis using False Cons.IH by simp
  qed
qed


lemma keep_first_covers:
  "r \<in> set rs \<Longrightarrow> map hash_key r \<notin> set seen \<Longrightarrow>
   \<exists>e \<in> set (keep_first seen rs). map hash_key e = map hash_key r"
proof (induction rs arbitrary: seen)
  case Nil
  then show ?case by simp
next
  case (Cons x rs)
  show ?case
  proof (cases "map hash_key x = map hash_key r")
    case True
    then show ?thesis using Cons.prems by auto
  next
    case False
    then have "r \<in> set rs" using Cons.prems by auto
    then show ?thesis using Cons.IH [of "map hash_key x # seen"] Cons.IH [of seen] Cons.prems False
      by (cases "map hash_key x \<in> set seen") auto
  qed
qed

lemma hash_key_isna [simp]: "isna (hash_key v) = isna v"
  by (cases v) (simp_all add: hash_key_def)

lemma hash_key_nested [simp]: "is_nested (hash_key v) = is_nested v"
  by (cases v) (simp_all add: hash_key_def)

lemma hash_key_idem [simp]: "hash_key (hash_key v) = hash_key v"
  by (cases v) (simp_all add: hash_key_def)

lemma hash_key_str [simp]: "hash_key (VStr s) = VStr s"
  by (simp add: hash_key_def)

lemma hash_key_eq_str: "hash_key v = VStr s \<Longrightarrow> v = VStr s"
  by (cases v) (simp_all add: hash_key_def)

lemma hash_key_stamp [simp]: "hash_key (VTimestamp t) = VTimestamp t"
  by (simp add: hash_key_def)

lemma alike_refl [simp]: "alike a a"
  by (simp add: alike_def)

lemma alike_sym: "alike a b \<Longrightarrow> alike b a"
  by (simp add: alike_def)

lemma alike_length: "alike a b \<Longrightarrow> length a = length b"
  unfolding alike_def by (metis length_map)

lemma alike_nth: "alike a b \<Longrightarrow> k < length a \<Longrightarrow> hash_key (a ! k) = hash_key (b ! k)"
proof -
  assume a: "alike a b" and k: "k < length a"
  have "map hash_key a ! k = map hash_key b ! k" using a by (simp add: alike_def)
  then show ?thesis using k alike_length [OF a] by simp
qed

lemma alike_isna: "alike a b \<Longrightarrow> list_ex isna a = list_ex isna b"
proof -
  assume a: "alike a b"
  have "list_ex isna (map hash_key a) = list_ex isna a" for a
    by (induction a) simp_all
  then show ?thesis using a by (metis alike_def)
qed

lemma alike_str_cell: "alike a b \<Longrightarrow> k < length a \<Longrightarrow> b ! k = VStr s \<Longrightarrow> a ! k = VStr s"
  using alike_nth [of a b k] by (simp add: hash_key_eq_str)

lemma keep_first_keeps_alike:
  assumes "r \<in> set rs"
  shows "\<exists>e \<in> set (keep_first [] rs). alike e r"
  using keep_first_covers [OF assms, of "[]"] by (simp add: alike_def)

lemma keep_first_keeps_unique:
  assumes "r \<in> set rs" "\<forall>e \<in> set rs. alike e r \<longrightarrow> e = r"
  shows "r \<in> set (keep_first [] rs)"
proof -
  obtain e where e: "e \<in> set (keep_first [] rs)" "alike e r"
    using keep_first_keeps_alike [OF assms(1)] by blast
  then have "e \<in> set rs" using keep_first_subset by blast
  then have "e = r" using assms(2) e(2) by blast
  then show ?thesis using e(1) by simp
qed

lemma distinct_filter_le_1:
  "distinct (map f xs) \<Longrightarrow> length (filter (\<lambda>x. f x = y) xs) \<le> 1"
proof (induction xs)
  case Nil
  show ?case by simp
next
  case (Cons x xs)
  show ?case
  proof (cases "f x = y")
    case True
    have "f x \<notin> f ` set xs" using Cons.prems by simp
    then have "\<forall>a \<in> set xs. f a \<noteq> y" using True by (metis imageI)
    then have "filter (\<lambda>x. f x = y) xs = []" by (simp add: filter_empty_conv)
    then show ?thesis using True by simp
  next
    case False
    then show ?thesis using Cons by simp
  qed
qed

lemma keep_first_alike_once:
  assumes "r \<in> set rs"
  shows "length (filter (\<lambda>e. alike e r) (keep_first [] rs)) = 1"
proof -
  have le: "length (filter (\<lambda>e. map hash_key e = map hash_key r) (keep_first [] rs)) \<le> 1"
    using keep_first_distinct_keys [of "[]" rs] by (rule distinct_filter_le_1)
  obtain e where "e \<in> set (keep_first [] rs)" "alike e r"
    using keep_first_keeps_alike [OF assms] by blast
  then have "filter (\<lambda>e. alike e r) (keep_first [] rs) \<noteq> []"
    by (auto simp: filter_empty_conv)
  then have "0 < length (filter (\<lambda>e. alike e r) (keep_first [] rs))" by simp
  moreover have "length (filter (\<lambda>e. alike e r) (keep_first [] rs)) \<le> 1"
    using le by (simp add: alike_def)
  ultimately show ?thesis by linarith
qed

lemma keep_first_length: "length (keep_first seen rs) \<le> length rs"
  by (induction rs arbitrary: seen) (auto intro: le_SucI)

lemma keep_first_no_nested: "\<not> list_ex (list_ex is_nested) rs \<Longrightarrow> \<not> list_ex (list_ex is_nested) (keep_first seen rs)"
  using keep_first_subset [of seen rs] by (auto simp: list_ex_iff)

lemmas io_defs = bind_io_def return_io_def deref_def inplace_def new_frame_def lift_io_def

lemma filter_upt_single:
  assumes "i < n" "P i" "\<And>j. j < n \<Longrightarrow> j \<noteq> i \<Longrightarrow> \<not> P j"
  shows "filter P [0 ..< n] = [i]"
proof -
  have e: "n = i + (n - i)" using assms(1) by simp
  have "[0 ..< i + (n - i)] = [0 ..< i] @ [i ..< i + (n - i)]"
    by (rule upt_add_eq_append) simp
  then have s1: "[0 ..< n] = [0 ..< i] @ [i ..< n]" using e by simp
  have s2: "[i ..< n] = i # [Suc i ..< n]"
    using assms(1) by (rule upt_conv_Cons)
  have a: "filter P [0 ..< i] = []"
    using assms(1,3) by (auto simp: filter_empty_conv)
  have b: "filter P [Suc i ..< n] = []"
    using assms(3) by (auto simp: filter_empty_conv)
  show ?thesis unfolding s1 s2 using a b assms(2) by simp
qed

lemma positions_single:
  assumes "distinct (columns t)" "name \<in> set (columns t)"
  shows "\<exists>i. positions name t = [i] \<and> i < length (columns t) \<and> columns t ! i = name"
proof -
  obtain i where i: "i < length (columns t)" "columns t ! i = name"
    using assms(2) by (auto simp: in_set_conv_nth)
  have "filter (\<lambda>j. columns t ! j = name) [0 ..< length (columns t)] = [i]"
  proof (rule filter_upt_single)
    show "i < length (columns t)" by (rule i(1))
    show "columns t ! i = name" by (rule i(2))
    fix j assume "j < length (columns t)" "j \<noteq> i"
    then show "columns t ! j \<noteq> name" using i assms(1) nth_eq_iff_index_eq [of "columns t" j i] by simp
  qed
  then show ?thesis using i by (auto simp: positions_def)
qed

lemma positions_sound: "i \<in> set (positions name t) \<Longrightarrow> i < length (columns t) \<and> columns t ! i = name"
  by (auto simp: positions_def)

text \<open>
  C9. On an orders table without rows, \<open>create_average_order_value\<close> returns a new
  frame with the single column \<open>average_order_value\<close> and a single row holding NaN, and
  \<open>create_total_revenue\<close> returns a new frame with the single column \<open>total_revenue\<close>
  and a single row holding 0. Neither raises. (An orders table has one \<open>subtotal\<close>
  column, which both functions read.)
\<close>

theorem empty_orders_aggregates:
  assumes "orders < length h"
    and "rows (h ! orders) = []"
    and "distinct (columns (h ! orders))"
    and "''subtotal'' \<in> set (columns (h ! orders))"
  shows "create_average_order_value orders h =
           (Inr (length h), h @ [\<lparr>columns = [''average_order_value''], rows = [[VNull NaN]]\<rparr>])
       \<and> create_total_revenue orders h =
           (Inr (length h), h @ [\<lparr>columns = [''total_revenue''], rows = [[VInt 0]]\<rparr>])"
proof -
  obtain i where "positions ''subtotal'' (h ! orders) = [i]"
    using positions_single [OF assms(3,4)] by blast
  then show ?thesis
    using assms(2)
    by (simp add: create_average_order_value_def create_total_revenue_def io_defs getitem_def
        series_mean_def series_sum_def)
qed

theorem empty_orders_aggregates_witness:
  "create_average_order_value 0 [\<lparr>columns = [''order_id'', ''subtotal''], rows = []\<rparr>] =
     (Inr 1, [\<lparr>columns = [''order_id'', ''subtotal''], rows = []\<rparr>,
              \<lparr>columns = [''average_order_value''], rows = [[VNull NaN]]\<rparr>])
   \<and> create_total_revenue 0 [\<lparr>columns = [''order_id'', ''subtotal''], rows = []\<rparr>] =
     (Inr 1, [\<lparr>columns = [''order_id'', ''subtotal''], rows = []\<rparr>,
              \<lparr>columns = [''total_revenue''], rows = [[VInt 0]]\<rparr>])"
  using empty_orders_aggregates [of 0 "[\<lparr>columns = [''order_id'', ''subtotal''], rows = []\<rparr>]"]
  by simp

section \<open>The cleaning nodes as functions of the input frame\<close>

lemma drop_duplicates_hashable:
  "\<not> list_ex (list_ex is_nested) (rows t) \<Longrightarrow> drop_duplicates t = Inr (dedup t)"
  by (simp add: drop_duplicates_def dedup_def)

lemma drop_duplicates_cases:
  "drop_duplicates t = Inr t' \<Longrightarrow> t' = dedup t"
  by (auto simp: drop_duplicates_def dedup_def split: if_splits)

lemma drop_duplicates_error:
  "drop_duplicates t = Inl e \<Longrightarrow> e = TypeError \<and> list_ex (list_ex is_nested) (rows t)"
  by (auto simp: drop_duplicates_def split: if_splits)

lemma clean_customers_run:
  assumes "r < length h"
  shows "clean_customers r h =
     (case drop_duplicates (h ! r) of
        Inl e \<Rightarrow> (Inl e, h)
      | Inr t \<Rightarrow> (Inr r, h[r := dropna t]))"
  using assms by (simp add: clean_customers_def io_defs split: sum.splits)

lemma safe_serialize_not_nested [simp]: "\<not> is_nested (safe_serialize fr x)"
  by (cases x) (simp_all add: safe_serialize_def split: sum.splits)

lemma ticket_row_not_nested: "v \<in> set (ticket_row fr cols r) \<Longrightarrow> \<not> is_nested v"
  by (auto simp: ticket_row_def dest!: set_zip_rightD split: if_splits)

lemma serialized_frame:
  "(if ''tags'' \<in> set (columns (applymap (safe_serialize fr) t))
    then astype_str fr ''tags'' (applymap (safe_serialize fr) t)
    else applymap (safe_serialize fr) t) = tickets_frame fr t"
  by (simp add: applymap_def astype_str_def ticket_row_def tickets_frame_def)

lemma tickets_frame_hashable: "\<not> list_ex (list_ex is_nested) (rows (tickets_frame fr t))"
  by (auto simp: tickets_frame_def list_ex_iff dest: ticket_row_not_nested)

lemma clean_tickets_run:
  "clean_tickets fr r h = (Inr (length h), h @ [dropna (dedup (tickets_frame fr (h ! r)))])"
proof -
  let ?s = "applymap (safe_serialize fr) (h ! r)"
  have cols: "columns ?s = columns (h ! r)" by (simp add: applymap_def)
  show ?thesis
  proof (cases "''tags'' \<in> set (columns (h ! r))")
    case True
    then have f: "astype_str fr ''tags'' ?s = tickets_frame fr (h ! r)"
      using serialized_frame [of fr "h ! r"] cols by simp
    show ?thesis using True cols
      by (simp add: clean_tickets_def io_defs f drop_duplicates_hashable tickets_frame_hashable)
  next
    case False
    then have f: "?s = tickets_frame fr (h ! r)"
      using serialized_frame [of fr "h ! r"] cols by simp
    show ?thesis using False cols
      by (simp add: clean_tickets_def io_defs f drop_duplicates_hashable tickets_frame_hashable)
  qed
qed

lemma clean_orders_run:
  assumes "r < length h"
  shows "clean_orders parse r h =
     (case drop_duplicates (renamed_orders (h ! r)) of
        Inl e \<Rightarrow> (Inl e, h[r := renamed_orders (h ! r)])
      | Inr t2 \<Rightarrow>
          (case assign_ordered_at parse (dropna t2) of
             Inl e \<Rightarrow> (Inl e, h[r := dropna t2])
           | Inr t3 \<Rightarrow> (Inr r, h[r := t3])))"
  using assms by (simp add: clean_orders_def io_defs renamed_orders_def split: sum.splits)

section \<open>Deduplicated, null-free output\<close>

lemma columns_dedup [simp]: "columns (dedup t) = columns t"
  by (simp add: dedup_def)

lemma columns_dropna [simp]: "columns (dropna t) = columns t"
  by (simp add: dropna_def)

lemma rows_dedup_subset: "set (rows (dedup t)) \<subseteq> set (rows t)"
  using keep_first_subset [of "[]" "rows t"] by (auto simp: dedup_def)

lemma rows_dropna: "set (rows (dropna t)) = {r \<in> set (rows t). \<not> list_ex isna r}"
  by (auto simp: dropna_def)




lemma dedup_keeps_alike: "row \<in> set (rows t) \<Longrightarrow> \<exists>e \<in> set (rows (dedup t)). alike e row"
proof (cases "df_empty t")
  case True
  assume "row \<in> set (rows t)"
  then have "row \<in> set (rows (dedup t))" using True by (simp add: dedup_def)
  then show ?thesis using alike_refl by blast
next
  case False
  assume "row \<in> set (rows t)"
  then show ?thesis using False keep_first_keeps_alike [of row "rows t"] by (simp add: dedup_def)
qed

lemma dedup_keeps_unique:
  assumes "row \<in> set (rows t)" "\<forall>e \<in> set (rows t). alike e row \<longrightarrow> e = row"
  shows "row \<in> set (rows (dedup t))"
proof (cases "df_empty t")
  case True
  then show ?thesis using assms(1) by (simp add: dedup_def)
next
  case False
  then show ?thesis using keep_first_keeps_unique [OF assms] by (simp add: dedup_def)
qed

lemma dedup_alike_once:
  assumes "row \<in> set (rows t)" "columns t \<noteq> []"
  shows "length (filter (\<lambda>e. alike e row) (rows (dedup t))) = 1"
proof -
  have "rows t \<noteq> []" using assms(1) by auto
  then have "\<not> df_empty t" using assms(2) by (simp add: df_empty_def)
  then show ?thesis using keep_first_alike_once [OF assms(1)] by (simp add: dedup_def)
qed

lemma dropna_alike:
  "filter (\<lambda>e. alike e row) (rows (dropna t)) =
     (if list_ex isna row then [] else filter (\<lambda>e. alike e row) (rows t))"
proof -
  have same: "\<And>e. alike e row \<Longrightarrow> list_ex isna e = list_ex isna row" by (rule alike_isna)
  have "filter (\<lambda>e. alike e row) (filter (\<lambda>r. \<not> list_ex isna r) (rows t)) =
          filter (\<lambda>e. alike e row \<and> \<not> list_ex isna row) (rows t)"
    unfolding filter_filter by (rule filter_cong) (use same in blast)+
  then show ?thesis by (simp add: dropna_def)
qed

lemma cleaned_keeps_alike:
  assumes "row \<in> set (rows t)" "\<not> list_ex isna row"
  shows "\<exists>e \<in> set (rows (dropna (dedup t))). alike e row"
proof -
  obtain e where e: "e \<in> set (rows (dedup t))" "alike e row"
    using dedup_keeps_alike [OF assms(1)] by blast
  have "\<not> list_ex isna e" using alike_isna [OF e(2)] assms(2) by simp
  then show ?thesis using e by (auto simp: dropna_def)
qed

lemma cleaned_keeps_unique:
  assumes "row \<in> set (rows t)" "\<not> list_ex isna row" "\<forall>e \<in> set (rows t). alike e row \<longrightarrow> e = row"
  shows "row \<in> set (rows (dropna (dedup t)))"
  using dedup_keeps_unique [OF assms(1,3)] assms(2) by (simp add: dropna_def)

lemma cleaned_alike_count:
  assumes "row \<in> set (rows t)" "columns t \<noteq> []"
  shows "length (filter (\<lambda>e. alike e row) (rows (dropna (dedup t)))) = (if list_ex isna row then 0 else 1)"
  using dedup_alike_once [OF assms] by (simp add: dropna_alike)

lemma cleaned_rows_subset: "set (rows (dropna (dedup t))) \<subseteq> {r \<in> set (rows t). \<not> list_ex isna r}"
  using keep_first_subset [of "[]" "rows t"] by (auto simp: dropna_def dedup_def)







lemma ticket_row_nth:
  assumes "k < length (ticket_row fr cols row)"
  shows "ticket_row fr cols row ! k =
           (if ''tags'' \<in> set cols \<and> cols ! k = ''tags'' then VStr (py_str fr (safe_serialize fr (row ! k)))
            else safe_serialize fr (row ! k))"
proof (cases "''tags'' \<in> set cols")
  case True
  then have k: "k < length cols" "k < length row" using assms by (simp_all add: ticket_row_def)
  show ?thesis using True k by (simp add: ticket_row_def)
next
  case False
  then show ?thesis using assms by (simp add: ticket_row_def)
qed



section \<open>The timestamp column of the orders\<close>

lemma map_zip_self: "map (\<lambda>(r, c). F r c) (zip xs (map g xs)) = map (\<lambda>r. F r (g r)) xs"
  by (induction xs) simp_all

lemma to_datetime_Inr:
  "to_datetime parse cells = Inr stamps \<Longrightarrow>
   stamps = map (\<lambda>c. datetime_cell (read_datetime parse c)) cells \<and> (\<forall>c \<in> set cells. read_datetime parse c \<noteq> Unparseable)"
  by (auto simp: to_datetime_def list_ex_iff split: if_splits)

lemma assign_ordered_at_Inr:
  assumes "assign_ordered_at parse t = Inr t3"
  shows "\<exists>i. positions ''ordered_at'' t = [i]
           \<and> (\<forall>row \<in> set (rows t). read_datetime parse (row ! i) \<noteq> Unparseable)
           \<and> columns t3 = columns t
           \<and> rows t3 = map (\<lambda>row. row[i := datetime_cell (read_datetime parse (row ! i))]) (rows t)"
proof -
  obtain cells where g: "getitem t ''ordered_at'' = Inr cells"
    using assms by (auto simp: assign_ordered_at_def split: sum.splits)
  then obtain i where i: "positions ''ordered_at'' t = [i]" and cells: "cells = map (\<lambda>r. r ! i) (rows t)"
    by (auto simp: getitem_def split: list.splits)
  obtain stamps where s: "to_datetime parse cells = Inr stamps"
    and t3: "t3 = setitem t ''ordered_at'' stamps"
    using assms g by (auto simp: assign_ordered_at_def split: sum.splits)
  have st: "stamps = map (\<lambda>c. datetime_cell (read_datetime parse c)) cells"
    and ok: "\<forall>c \<in> set cells. read_datetime parse c \<noteq> Unparseable"
    using to_datetime_Inr [OF s] by simp_all
  have "rows t3 = map (\<lambda>(r, c). r[i := c]) (zip (rows t) (map (\<lambda>r. datetime_cell (read_datetime parse (r ! i))) (rows t)))"
    using t3 i st cells by (simp add: setitem_def comp_def)
  then have rows: "rows t3 = map (\<lambda>row. row[i := datetime_cell (read_datetime parse (row ! i))]) (rows t)"
    by (simp only: map_zip_self)
  have cols: "columns t3 = columns t" using t3 i by (simp add: setitem_def)
  show ?thesis using i ok cells rows cols by auto
qed

lemma assign_ordered_at_unparseable:
  assumes "positions ''ordered_at'' t = [i]" "row \<in> set (rows t)" "read_datetime parse (row ! i) = Unparseable"
  shows "assign_ordered_at parse t = Inl ValueError"
  using assms by (auto simp: assign_ordered_at_def getitem_def to_datetime_def list_ex_iff)

lemma assign_ordered_at_ok:
  assumes "positions ''ordered_at'' t = [i]" "\<forall>row \<in> set (rows t). read_datetime parse (row ! i) \<noteq> Unparseable"
  shows "\<exists>t3. assign_ordered_at parse t = Inr t3"
  using assms by (auto simp: assign_ordered_at_def getitem_def to_datetime_def list_ex_iff)

lemma assign_ordered_at_error:
  "assign_ordered_at parse t = Inl e \<Longrightarrow> positions ''ordered_at'' t = [i] \<Longrightarrow> e = ValueError"
  by (auto simp: assign_ordered_at_def getitem_def to_datetime_def split: sum.splits if_splits)

lemma clean_orders_output:
  assumes "r < length h" "clean_orders parse r h = (Inr r', h')"
  shows "r' = r \<and> (\<exists>i. positions ''ordered_at'' (renamed_orders (h ! r)) = [i]
           \<and> columns (h' ! r') = columns (renamed_orders (h ! r))
           \<and> rows (h' ! r') = map (\<lambda>row. row[i := datetime_cell (read_datetime parse (row ! i))])
                                  (rows (dropna (dedup (renamed_orders (h ! r)))))
           \<and> (\<forall>row \<in> set (rows (dropna (dedup (renamed_orders (h ! r))))). read_datetime parse (row ! i) \<noteq> Unparseable))"
proof -
  let ?t1 = "renamed_orders (h ! r)"
  obtain t2 t3 where t2: "drop_duplicates ?t1 = Inr t2"
    and t3: "assign_ordered_at parse (dropna t2) = Inr t3"
    and res: "r' = r" "h' = h[r := t3]"
    using assms by (auto simp: clean_orders_run split: sum.splits)
  have d: "t2 = dedup ?t1" using t2 by (rule drop_duplicates_cases)
  obtain i where i: "positions ''ordered_at'' (dropna t2) = [i]"
      "\<forall>row \<in> set (rows (dropna t2)). read_datetime parse (row ! i) \<noteq> Unparseable"
      "columns t3 = columns (dropna t2)"
      "rows t3 = map (\<lambda>row. row[i := datetime_cell (read_datetime parse (row ! i))]) (rows (dropna t2))"
    using assign_ordered_at_Inr [OF t3] by blast
  have p: "positions ''ordered_at'' (dropna t2) = positions ''ordered_at'' ?t1"
    using d by (simp add: positions_def)
  have out: "h' ! r' = t3" using res assms(1) by simp
  have pi: "positions ''ordered_at'' ?t1 = [i]" using i(1) p by simp
  show ?thesis unfolding out
    by (intro conjI exI [of _ i]) (use i pi d res(1) in simp_all)
qed


lemma positions_in:
  assumes "positions name t = [i]"
  shows "i < length (columns t) \<and> columns t ! i = name"
proof -
  have "i \<in> set (positions name t)" using assms by simp
  then show ?thesis by (rule positions_sound)
qed

lemma positions_renamed [simp]:
  "positions ''ordered_at'' (renamed_orders t) = positions ''ordered_at'' t"
proof -
  have "\<And>j. j < length (columns t) \<Longrightarrow>
          ((if columns t ! j = ''id'' then ''order_id'' else columns t ! j) = ''ordered_at'')
          = (columns t ! j = ''ordered_at'')"
    by auto
  then show ?thesis
    by (auto simp: positions_def renamed_orders_def rename_columns_def intro!: filter_cong)
qed

lemma rows_renamed [simp]: "rows (renamed_orders t) = rows t"
  by (simp add: renamed_orders_def rename_columns_def)


section \<open>C5: which nodes change the caller's frame\<close>

lemma average_effect:
  "(\<exists>out. create_average_order_value r h = (Inr (length h), h @ [out]))
   \<or> (\<exists>e. create_average_order_value r h = (Inl e, h))"
  by (auto simp: create_average_order_value_def io_defs split: sum.splits)

lemma revenue_effect:
  "(\<exists>out. create_total_revenue r h = (Inr (length h), h @ [out]))
   \<or> (\<exists>e. create_total_revenue r h = (Inl e, h))"
  by (auto simp: create_total_revenue_def io_defs split: sum.splits)

lemma tickets_per_order_effect:
  "(\<exists>out. create_tickets_per_order r r2 h = (Inr (length h), h @ [out]))
   \<or> (\<exists>e. create_tickets_per_order r r2 h = (Inl e, h))"
  by (auto simp: create_tickets_per_order_def io_defs split: sum.splits)

lemma clean_customers_effect:
  assumes "r < length h"
  shows "clean_customers r h = (Inr r, h[r := dropna (dedup (h ! r))])
       \<or> clean_customers r h = (Inl TypeError, h)"
proof (cases "drop_duplicates (h ! r)")
  case (Inl e)
  then have "e = TypeError" using drop_duplicates_error by blast
  then show ?thesis using Inl by (simp add: clean_customers_run [OF assms])
next
  case (Inr t)
  then have "t = dedup (h ! r)" by (rule drop_duplicates_cases)
  then show ?thesis using Inr by (simp add: clean_customers_run [OF assms])
qed

lemma clean_orders_effect:
  assumes "r < length h"
  shows "(\<exists>out i. clean_orders parse r h = (Inr r, h[r := out])
            \<and> positions ''ordered_at'' (h ! r) = [i]
            \<and> columns out = columns (renamed_orders (h ! r))
            \<and> rows out = map (\<lambda>row. row[i := datetime_cell (read_datetime parse (row ! i))])
                              (rows (dropna (dedup (renamed_orders (h ! r))))))
       \<or> clean_orders parse r h = (Inl TypeError, h[r := renamed_orders (h ! r)])
       \<or> (\<exists>e. clean_orders parse r h = (Inl e, h[r := dropna (dedup (renamed_orders (h ! r)))]))"
proof (cases "drop_duplicates (renamed_orders (h ! r))")
  case (Inl e)
  then have "e = TypeError" using drop_duplicates_error by blast
  then show ?thesis using Inl by (simp add: clean_orders_run [OF assms])
next
  case (Inr t2)
  then have t2: "t2 = dedup (renamed_orders (h ! r))" by (rule drop_duplicates_cases)
  show ?thesis
  proof (cases "assign_ordered_at parse (dropna t2)")
    case (Inl e)
    then show ?thesis using Inr t2 by (simp add: clean_orders_run [OF assms])
  next
    case (Inr t3)
    then have run: "clean_orders parse r h = (Inr r, h[r := t3])"
      using \<open>drop_duplicates (renamed_orders (h ! r)) = Inr t2\<close> by (simp add: clean_orders_run [OF assms])
    have out: "h[r := t3] ! r = t3" using assms by simp
    obtain i where "positions ''ordered_at'' (renamed_orders (h ! r)) = [i]"
      "columns t3 = columns (renamed_orders (h ! r))"
      "rows t3 = map (\<lambda>row. row[i := datetime_cell (read_datetime parse (row ! i))])
                     (rows (dropna (dedup (renamed_orders (h ! r)))))"
      using clean_orders_output [OF assms run] out by auto
    then show ?thesis using run by auto
  qed
qed

lemma renamed_columns_differ:
  "''id'' \<in> set (columns t) \<Longrightarrow> columns (renamed_orders t) \<noteq> columns t"
proof
  assume a: "''id'' \<in> set (columns t)" and e: "columns (renamed_orders t) = columns t"
  have "''id'' \<notin> set (columns (renamed_orders t))"
    by (auto simp: renamed_orders_def rename_columns_def)
  then show False using a e by simp
qed

lemma clean_orders_renames_in_place:
  assumes "r < length h" "''id'' \<in> set (columns (h ! r))"
  shows "columns (snd (clean_orders parse r h) ! r) \<noteq> columns (h ! r)"
proof -
  have d: "columns (renamed_orders (h ! r)) \<noteq> columns (h ! r)"
    using assms(2) by (rule renamed_columns_differ)
  consider (ok) out where "clean_orders parse r h = (Inr r, h[r := out])"
      "columns out = columns (renamed_orders (h ! r))"
    | (dup) "clean_orders parse r h = (Inl TypeError, h[r := renamed_orders (h ! r)])"
    | (date) e where "clean_orders parse r h = (Inl e, h[r := dropna (dedup (renamed_orders (h ! r)))])"
    using clean_orders_effect [OF assms(1), of parse] by blast
  then show ?thesis
  proof cases
    case ok
    then show ?thesis using d assms(1) by simp
  next
    case dup
    then show ?thesis using d assms(1) by simp
  next
    case date
    then show ?thesis using d assms(1) by simp
  qed
qed

lemma clean_customers_drops_in_place:
  assumes "r < length h" "list_ex (list_ex isna) (rows (h ! r))" "fst (clean_customers r h) = Inr r"
  shows "snd (clean_customers r h) ! r \<noteq> h ! r"
proof
  assume same: "snd (clean_customers r h) ! r = h ! r"
  have run: "clean_customers r h = (Inr r, h[r := dropna (dedup (h ! r))])"
    using clean_customers_effect [OF assms(1)] assms(3) by auto
  then have "dropna (dedup (h ! r)) = h ! r" using same assms(1) by simp
  then have "\<forall>row \<in> set (rows (h ! r)). \<not> list_ex isna row"
    using rows_dropna [of "dedup (h ! r)"] by auto
  then show False using assms(2) by (auto simp: list_ex_iff)
qed

text \<open>
  C5, as the code has it, for a call on the frame behind \<open>r\<close>.

  \<^item> \<open>clean_tickets\<close> returns a new frame, the cleaned copy, and leaves every frame that
    existed before the call as it was. Each reporting node either returns a new frame
    and leaves the existing ones as they were, or raises and changes nothing.
  \<^item> \<open>clean_customers\<close> makes no copy: when it returns, it returns the reference it was
    given, no frame has been created, and the caller's frame has become the cleaned
    one; when it raises, nothing has changed.
  \<^item> \<open>clean_orders\<close> makes no copy either: when it returns, it returns the reference it
    was given and the caller's frame has become the cleaned one; when it raises, the
    caller's frame has already been renamed, or renamed, deduplicated and null-dropped.
  \<^item> So the caller sees the change: after \<open>clean_customers\<close> returns on a frame with a
    missing cell the caller's frame is a different one, and after \<open>clean_orders\<close> on a
    frame with an \<open>id\<close> column the caller's frame has other column labels.
\<close>

theorem nodes_frame_effect:
  assumes "r < length h"
  shows "clean_tickets fr r h = (Inr (length h), h @ [dropna (dedup (tickets_frame fr (h ! r)))])
       \<and> ((\<exists>out. create_average_order_value r h = (Inr (length h), h @ [out]))
            \<or> (\<exists>e. create_average_order_value r h = (Inl e, h)))
       \<and> ((\<exists>out. create_total_revenue r h = (Inr (length h), h @ [out]))
            \<or> (\<exists>e. create_total_revenue r h = (Inl e, h)))
       \<and> ((\<exists>out. create_tickets_per_order r r2 h = (Inr (length h), h @ [out]))
            \<or> (\<exists>e. create_tickets_per_order r r2 h = (Inl e, h)))
       \<and> (clean_customers r h = (Inr r, h[r := dropna (dedup (h ! r))])
            \<or> clean_customers r h = (Inl TypeError, h))
       \<and> ((\<exists>out i. clean_orders parse r h = (Inr r, h[r := out])
                \<and> positions ''ordered_at'' (h ! r) = [i]
                \<and> columns out = columns (renamed_orders (h ! r))
                \<and> rows out = map (\<lambda>row. row[i := datetime_cell (read_datetime parse (row ! i))])
                                  (rows (dropna (dedup (renamed_orders (h ! r))))))
            \<or> clean_orders parse r h = (Inl TypeError, h[r := renamed_orders (h ! r)])
            \<or> (\<exists>e. clean_orders parse r h = (Inl e, h[r := dropna (dedup (renamed_orders (h ! r)))])))
       \<and> (list_ex (list_ex isna) (rows (h ! r)) \<and> fst (clean_customers r h) = Inr r
            \<longrightarrow> snd (clean_customers r h) ! r \<noteq> h ! r)
       \<and> (''id'' \<in> set (columns (h ! r)) \<longrightarrow> columns (snd (clean_orders parse r h) ! r) \<noteq> columns (h ! r))"
  using average_effect [of r h] revenue_effect [of r h] tickets_per_order_effect [of r r2 h]
    clean_customers_effect [OF assms] clean_orders_effect [OF assms, of parse]
    clean_customers_drops_in_place [OF assms] clean_orders_renames_in_place [OF assms, of parse]
  by (simp add: clean_tickets_run)

theorem nodes_frame_effect_witness:
  "(0 :: nat) < length [raw_customers]
   \<and> list_ex (list_ex isna) (rows ([raw_customers] ! 0))
   \<and> clean_customers 0 [raw_customers] =
        (Inr 0, [\<lparr>columns = [''id'', ''name'', ''email''],
                  rows = [[VInt 1, VStr ''Alice'', VStr ''a@test.com''],
                          [VInt 2, VStr ''Bob'', VStr ''b@test.com'']]\<rparr>])
   \<and> snd (clean_customers 0 [raw_customers]) ! 0 \<noteq> [raw_customers] ! 0
   \<and> ''id'' \<in> set (columns ([raw_orders] ! 0))
   \<and> clean_orders parse_ymd 0 [raw_orders] =
        (Inr 0, [\<lparr>columns = [''order_id'', ''customer'', ''ordered_at'', ''subtotal''],
                  rows = [[VStr ''ORD-001'', VFloat 1, VTimestamp (Stamp 2024 1 1 0 0 0), VFloat 100],
                          [VStr ''ORD-002'', VFloat 2, VTimestamp (Stamp 2024 1 2 0 0 0), VFloat 150]]\<rparr>])
   \<and> columns (snd (clean_orders parse_ymd 0 [raw_orders]) ! 0) \<noteq> columns ([raw_orders] ! 0)
   \<and> clean_tickets (\<lambda>q. []) 0 [raw_tickets] =
        (Inr 1, [raw_tickets,
                 \<lparr>columns = [''ticket_id'', ''order_id'', ''status'', ''tags''],
                  rows = [[VStr ''TCK-001'', VStr ''ORD-001'', VStr ''resolved'',
                           VStr (json_encode (\<lambda>q. []) (VList [VStr ''order'', VStr ''delivery'']))],
                          [VStr ''TCK-002'', VStr ''ORD-002'', VStr ''open'',
                           VStr (json_encode (\<lambda>q. []) (VDict [(''category'', VStr ''billing'')]))]]\<rparr>])
   \<and> create_average_order_value 0 [three_orders] =
        (Inr 1, [three_orders, \<lparr>columns = [''average_order_value''], rows = [[VFloat 150]]\<rparr>])
   \<and> create_total_revenue 0 [three_orders] =
        (Inr 1, [three_orders, \<lparr>columns = [''total_revenue''], rows = [[VInt 450]]\<rparr>])
   \<and> create_tickets_per_order 0 1 [three_orders, three_tickets] =
        (Inr 2, [three_orders, three_tickets,
                 \<lparr>columns = [''order_id'', ''number_of_tickets''],
                  rows = [[VStr ''ORD-001'', VInt 2], [VStr ''ORD-002'', VInt 1]]\<rparr>])"
proof -
  have a: "(0 :: nat) < length [raw_customers]" "(0 :: nat) < length [raw_orders]" by simp_all
  have n: "list_ex (list_ex isna) (rows ([raw_customers] ! 0))" by (simp add: raw_customers_def)
  have c: "clean_customers 0 [raw_customers] =
        (Inr 0, [\<lparr>columns = [''id'', ''name'', ''email''],
                  rows = [[VInt 1, VStr ''Alice'', VStr ''a@test.com''],
                          [VInt 2, VStr ''Bob'', VStr ''b@test.com'']]\<rparr>])"
    by code_simp
  have i: "''id'' \<in> set (columns ([raw_orders] ! 0))" by (simp add: raw_orders_def)
  have o: "clean_orders parse_ymd 0 [raw_orders] =
        (Inr 0, [\<lparr>columns = [''order_id'', ''customer'', ''ordered_at'', ''subtotal''],
                  rows = [[VStr ''ORD-001'', VFloat 1, VTimestamp (Stamp 2024 1 1 0 0 0), VFloat 100],
                          [VStr ''ORD-002'', VFloat 2, VTimestamp (Stamp 2024 1 2 0 0 0), VFloat 150]]\<rparr>])"
    by code_simp
  have t: "clean_tickets (\<lambda>q. []) 0 [raw_tickets] =
        (Inr 1, [raw_tickets,
                 \<lparr>columns = [''ticket_id'', ''order_id'', ''status'', ''tags''],
                  rows = [[VStr ''TCK-001'', VStr ''ORD-001'', VStr ''resolved'',
                           VStr (json_encode (\<lambda>q. []) (VList [VStr ''order'', VStr ''delivery'']))],
                          [VStr ''TCK-002'', VStr ''ORD-002'', VStr ''open'',
                           VStr (json_encode (\<lambda>q. []) (VDict [(''category'', VStr ''billing'')]))]]\<rparr>])"
    by code_simp
  have v: "create_average_order_value 0 [three_orders] =
        (Inr 1, [three_orders, \<lparr>columns = [''average_order_value''], rows = [[VFloat 150]]\<rparr>])"
    by code_simp
  have s: "create_total_revenue 0 [three_orders] =
        (Inr 1, [three_orders, \<lparr>columns = [''total_revenue''], rows = [[VInt 450]]\<rparr>])"
    by code_simp
  have p: "create_tickets_per_order 0 1 [three_orders, three_tickets] =
        (Inr 2, [three_orders, three_tickets,
                 \<lparr>columns = [''order_id'', ''number_of_tickets''],
                  rows = [[VStr ''ORD-001'', VInt 2], [VStr ''ORD-002'', VInt 1]]\<rparr>])"
    by code_simp
  have fs: "fst (clean_customers 0 [raw_customers]) = Inr 0" using c by simp
  have "list_ex (list_ex isna) (rows ([raw_customers] ! 0)) \<and> fst (clean_customers 0 [raw_customers]) = Inr 0
          \<longrightarrow> snd (clean_customers 0 [raw_customers]) ! 0 \<noteq> [raw_customers] ! 0"
    using nodes_frame_effect [OF a(1), of "\<lambda>q. []" 0 parse_ymd] by blast
  then have cm: "snd (clean_customers 0 [raw_customers]) ! 0 \<noteq> [raw_customers] ! 0"
    using n fs by blast
  have om: "columns (snd (clean_orders parse_ymd 0 [raw_orders]) ! 0) \<noteq> columns ([raw_orders] ! 0)"
    using nodes_frame_effect [OF a(2), of "\<lambda>q. []" 0 parse_ymd] i by blast
  show ?thesis using a n c cm i o om t v s p by blast
qed

text \<open>
  C5 fails as stated: \<open>clean_customers\<close> removes the repeated row of \<open>dup_customers\<close>
  from the caller's own frame, and returns the reference it was given.
\<close>

theorem clean_customers_mutates_input:
  "clean_customers 0 [dup_customers] =
     (Inr 0, [\<lparr>columns = [''id'', ''name''], rows = [[VInt 1, VStr ''Alice'']]\<rparr>])
   \<and> [\<lparr>columns = [''id'', ''name''], rows = [[VInt 1, VStr ''Alice'']]\<rparr>] \<noteq> [dup_customers]"
proof -
  have "clean_customers 0 [dup_customers] =
     (Inr 0, [\<lparr>columns = [''id'', ''name''], rows = [[VInt 1, VStr ''Alice'']]\<rparr>])"
    by code_simp
  then show ?thesis by (simp add: dup_customers_def)
qed

section \<open>C1: what holds of every cleaned table\<close>


lemma renamed_hashable [simp]:
  "list_ex (list_ex is_nested) (rows (renamed_orders t)) = list_ex (list_ex is_nested) (rows t)"
  by simp





text \<open>
  A date that is read as missing: the first row of \<open>blank_date_orders\<close> has no missing
  cell and the empty string under \<open>ordered_at\<close>. The null-drop has run when the dates
  are parsed, the empty string is read as NaT, and the cleaned orders hold a row with a
  missing \<open>ordered_at\<close>.
\<close>

lemma blank_date_leaves_null:
  "\<not> list_ex (list_ex isna) (rows blank_date_orders)
   \<and> fst (clean_orders parse_ymd 0 [blank_date_orders]) = Inr 0
   \<and> rows (snd (clean_orders parse_ymd 0 [blank_date_orders]) ! 0) =
       [[VStr ''ORD-001'', VNull NaT], [VStr ''ORD-002'', VTimestamp (Stamp 2024 1 2 0 0 0)]]"
  by code_simp

section \<open>C10: a missing tag is turned into text before the null-drop\<close>

lemma safe_serialize_isna [simp]: "isna (safe_serialize fr x) = isna x"
  by (cases x) (simp_all add: safe_serialize_def split: sum.splits)

lemma ticket_row_length_wf:
  "length row = length cols \<Longrightarrow> length (ticket_row fr cols row) = length row"
  by (simp add: ticket_row_def)

lemma ticket_row_in_frame:
  "row \<in> set (rows t) \<Longrightarrow> ticket_row fr (columns t) row \<in> set (rows (tickets_frame fr t))"
  by (simp add: tickets_frame_def)

lemma tickets_frame_rows: "rows (tickets_frame fr t) = map (ticket_row fr (columns t)) (rows t)"
  by (simp add: tickets_frame_def)

lemma ticket_row_kept:
  assumes "row \<in> set (rows t)" "\<not> list_ex isna (ticket_row fr (columns t) row)"
  shows "\<exists>kept \<in> set (rows (dropna (dedup (tickets_frame fr t)))). alike kept (ticket_row fr (columns t) row)"
  using cleaned_keeps_alike [OF ticket_row_in_frame [OF assms(1)] assms(2)] .

lemma ticket_row_kept_itself:
  assumes "row \<in> set (rows t)" "\<not> list_ex isna (ticket_row fr (columns t) row)"
    and "\<forall>row2 \<in> set (rows t). alike (ticket_row fr (columns t) row2) (ticket_row fr (columns t) row)
           \<longrightarrow> ticket_row fr (columns t) row2 = ticket_row fr (columns t) row"
  shows "ticket_row fr (columns t) row \<in> set (rows (dropna (dedup (tickets_frame fr t))))"
proof (rule cleaned_keeps_unique [OF ticket_row_in_frame [OF assms(1)] assms(2)])
  show "\<forall>e \<in> set (rows (tickets_frame fr t)). alike e (ticket_row fr (columns t) row)
          \<longrightarrow> e = ticket_row fr (columns t) row"
    using assms(3) by (auto simp: tickets_frame_rows)
qed

text \<open>
  C10. If a tickets table has a \<open>tags\<close> column and a row of it has missing cells only
  under \<open>tags\<close>, then \<open>clean_tickets\<close> returns and the row is among the output rows in
  its serialized form: the missing tag was replaced by its \<open>str\<close> rendering (\<open>None\<close>,
  \<open>nan\<close> or \<open>NaT\<close>) before the null-drop, so it is not missing any more. The output
  row is the first of the rows alike to it, as pandas compares cells (\<open>1\<close>, \<open>1.0\<close> and
  \<open>True\<close> are equal): it carries that string under \<open>tags\<close>, and it is the serialized
  row itself when every row alike to it is the same row.
\<close>

theorem null_tag_survives:
  assumes "row \<in> set (rows (h ! tickets))"
    and "length row = length (columns (h ! tickets))"
    and "''tags'' \<in> set (columns (h ! tickets))"
    and "\<forall>k < length row. isna (row ! k) \<longrightarrow> columns (h ! tickets) ! k = ''tags''"
  shows "\<exists>h' kept. clean_tickets fr tickets h = (Inr (length h), h')
           \<and> kept \<in> set (rows (h' ! length h))
           \<and> alike kept (ticket_row fr (columns (h ! tickets)) row)
           \<and> length (ticket_row fr (columns (h ! tickets)) row) = length row
           \<and> (\<forall>k < length row. isna (row ! k) \<longrightarrow>
                 ticket_row fr (columns (h ! tickets)) row ! k = VStr (py_repr fr (row ! k))
               \<and> kept ! k = VStr (py_repr fr (row ! k)))
           \<and> ((\<forall>row2 \<in> set (rows (h ! tickets)).
                  alike (ticket_row fr (columns (h ! tickets)) row2) (ticket_row fr (columns (h ! tickets)) row)
                  \<longrightarrow> ticket_row fr (columns (h ! tickets)) row2 = ticket_row fr (columns (h ! tickets)) row)
               \<longrightarrow> ticket_row fr (columns (h ! tickets)) row \<in> set (rows (h' ! length h)))"
proof -
  let ?cols = "columns (h ! tickets)"
  let ?row' = "ticket_row fr ?cols row"
  let ?out = "dropna (dedup (tickets_frame fr (h ! tickets)))"
  have len: "length ?row' = length row" using assms(2) by (rule ticket_row_length_wf)
  have cell: "\<And>k. k < length row \<Longrightarrow>
      ?row' ! k = (if ?cols ! k = ''tags'' then VStr (py_str fr (safe_serialize fr (row ! k)))
                   else safe_serialize fr (row ! k))"
    using ticket_row_nth [of _ fr ?cols row] len assms(3) by simp
  have nonnull: "\<not> list_ex isna ?row'"
  proof
    assume "list_ex isna ?row'"
    then obtain k where k: "k < length ?row'" "isna (?row' ! k)"
      by (auto simp: list_ex_iff in_set_conv_nth)
    then have kr: "k < length row" using len by simp
    show False
    proof (cases "?cols ! k = ''tags''")
      case True
      then show False using k(2) cell [OF kr] by simp
    next
      case False
      then have "isna (row ! k)" using k(2) cell [OF kr] by simp
      then show False using assms(4) kr False by blast
    qed
  qed
  have tagcell: "\<forall>k < length row. isna (row ! k) \<longrightarrow> ?row' ! k = VStr (py_repr fr (row ! k))"
  proof (intro allI impI)
    fix k assume kr: "k < length row" and n: "isna (row ! k)"
    then have t: "?cols ! k = ''tags''" using assms(4) by blast
    obtain m where m: "row ! k = VNull m" using n by (cases "row ! k") auto
    show "?row' ! k = VStr (py_repr fr (row ! k))"
      using cell [OF kr] t m by (simp add: safe_serialize_def)
  qed
  obtain kept where kept: "kept \<in> set (rows ?out)" "alike kept ?row'"
    using ticket_row_kept [OF assms(1) nonnull] by blast
  have klen: "length kept = length row" using alike_length [OF kept(2)] len by simp
  have kepttag: "\<forall>k < length row. isna (row ! k) \<longrightarrow> kept ! k = VStr (py_repr fr (row ! k))"
  proof (intro allI impI)
    fix k assume kr: "k < length row" and n: "isna (row ! k)"
    have "?row' ! k = VStr (py_repr fr (row ! k))" using tagcell kr n by blast
    then show "kept ! k = VStr (py_repr fr (row ! k))"
      using alike_str_cell [OF kept(2), of k] kr klen by simp
  qed
  have itself: "(\<forall>row2 \<in> set (rows (h ! tickets)). alike (ticket_row fr ?cols row2) ?row'
                  \<longrightarrow> ticket_row fr ?cols row2 = ?row') \<longrightarrow> ?row' \<in> set (rows ?out)"
    using ticket_row_kept_itself [OF assms(1) nonnull] by blast
  have run: "clean_tickets fr tickets h = (Inr (length h), h @ [?out])" by (rule clean_tickets_run)
  have out: "(h @ [?out]) ! length h = ?out" by simp
  show ?thesis
  proof (intro exI [of _ "h @ [?out]"] exI [of _ kept] conjI)
    show "clean_tickets fr tickets h = (Inr (length h), h @ [?out])" by (rule run)
    show "kept \<in> set (rows ((h @ [?out]) ! length h))" using kept(1) out by simp
    show "alike kept ?row'" by (rule kept(2))
    show "length ?row' = length row" by (rule len)
    show "\<forall>k < length row. isna (row ! k) \<longrightarrow>
            ?row' ! k = VStr (py_repr fr (row ! k)) \<and> kept ! k = VStr (py_repr fr (row ! k))"
      using tagcell kepttag by blast
    show "(\<forall>row2 \<in> set (rows (h ! tickets)). alike (ticket_row fr ?cols row2) ?row'
             \<longrightarrow> ticket_row fr ?cols row2 = ?row') \<longrightarrow> ?row' \<in> set (rows ((h @ [?out]) ! length h))"
      using itself out by simp
  qed
qed

theorem null_tag_survives_witness:
  "[VStr ''T1'', VNull PyNone] \<in> set (rows ([null_tag_tickets] ! 0))
   \<and> ''tags'' \<in> set (columns ([null_tag_tickets] ! 0))
   \<and> clean_tickets (\<lambda>q. []) 0 [null_tag_tickets] =
       (Inr 1, [null_tag_tickets,
                \<lparr>columns = [''ticket_id'', ''tags''],
                 rows = [[VStr ''T1'', VStr ''None''],
                         [VStr ''T2'', VStr [CHR ''['', CHR 0x22, CHR ''r'', CHR ''e'', CHR ''f'', CHR ''u'',
                                            CHR ''n'', CHR ''d'', CHR 0x22, CHR '']'']]]\<rparr>])
   \<and> ticket_row (\<lambda>q. []) (columns null_tag_tickets) [VStr ''T1'', VNull PyNone] = [VStr ''T1'', VStr ''None'']"
proof -
  have a: "[VStr ''T1'', VNull PyNone] \<in> set (rows ([null_tag_tickets] ! 0))"
    by (simp add: null_tag_tickets_def)
  have b: "length [VStr ''T1'', VNull PyNone] = length (columns ([null_tag_tickets] ! 0))"
    by (simp add: null_tag_tickets_def)
  have c: "''tags'' \<in> set (columns ([null_tag_tickets] ! 0))"
    by (simp add: null_tag_tickets_def)
  have d: "\<forall>k < length [VStr ''T1'', VNull PyNone]. isna ([VStr ''T1'', VNull PyNone] ! k) \<longrightarrow>
             columns ([null_tag_tickets] ! 0) ! k = ''tags''"
    by (simp add: null_tag_tickets_def less_Suc_eq_0_disj)
  have e: "clean_tickets (\<lambda>q. []) 0 [null_tag_tickets] =
       (Inr 1, [null_tag_tickets,
                \<lparr>columns = [''ticket_id'', ''tags''],
                 rows = [[VStr ''T1'', VStr ''None''],
                         [VStr ''T2'', VStr [CHR ''['', CHR 0x22, CHR ''r'', CHR ''e'', CHR ''f'', CHR ''u'',
                                            CHR ''n'', CHR ''d'', CHR 0x22, CHR '']'']]]\<rparr>])"
    by code_simp
  have f: "ticket_row (\<lambda>q. []) (columns null_tag_tickets) [VStr ''T1'', VNull PyNone] = [VStr ''T1'', VStr ''None'']"
    by code_simp
  have g: "\<exists>h' kept. clean_tickets (\<lambda>q. []) 0 [null_tag_tickets] = (Inr (length [null_tag_tickets]), h')
           \<and> kept \<in> set (rows (h' ! length [null_tag_tickets]))
           \<and> alike kept (ticket_row (\<lambda>q. []) (columns ([null_tag_tickets] ! 0)) [VStr ''T1'', VNull PyNone])"
    using null_tag_survives [OF a b c d, of "\<lambda>q. []"] by blast
  show ?thesis using g a c e f by blast
qed

section \<open>C2: the serializer is canonical on what json can encode\<close>

lemma distinct_keys_sort: "distinct (map fst (sort_key fst kvs)) = distinct (map fst kvs)"
  by (induction kvs) (auto simp: distinct_insort_key)

lemma sorted_keys_unique:
  assumes "distinct (map fst a)" "distinct (map fst b)" "fst ` set a = fst ` set b"
  shows "map fst (sort_key fst a) = map fst (sort_key fst b)"
proof (rule sorted_distinct_set_unique)
  show "sorted (map fst (sort_key fst a))" by simp
  show "sorted (map fst (sort_key fst b))" by simp
  show "distinct (map fst (sort_key fst a))" using assms(1) by (simp add: distinct_keys_sort)
  show "distinct (map fst (sort_key fst b))" using assms(2) by (simp add: distinct_keys_sort)
  show "set (map fst (sort_key fst a)) = set (map fst (sort_key fst b))" using assms(3) by simp
qed

lemma same_keys:
  assumes "distinct (map fst a)" "distinct (map fst b)" "length a = length b"
    and "\<forall>k v. (k, v) \<in> set a \<longrightarrow> (\<exists>w. (k, w) \<in> set b \<and> P v w)"
  shows "fst ` set a = fst ` set b"
proof -
  have sub: "fst ` set a \<subseteq> fst ` set b" using assms(4) by force
  have "card (fst ` set a) = length a" using assms(1) distinct_card [of "map fst a"] by simp
  moreover have "card (fst ` set b) = length b" using assms(2) distinct_card [of "map fst b"] by simp
  ultimately have "card (fst ` set a) = card (fst ` set b)" using assms(3) by simp
  then show ?thesis using sub by (simp add: card_subset_eq)
qed

lemma distinct_keys_value:
  assumes "distinct (map fst b)" "(k, v) \<in> set b" "(k, w) \<in> set b"
  shows "v = w"
  using assms by (meson eq_key_imp_eq_value)

lemma dict_items_aligned:
  assumes da: "distinct (map fst a)" and db: "distinct (map fst b)" and len: "length a = length b"
    and rel: "\<forall>k v. (k, v) \<in> set a \<longrightarrow> (\<exists>w. (k, w) \<in> set b \<and> P v w)"
  shows "list_all2 (\<lambda>x y. fst x = fst y \<and> P (snd x) (snd y)) (sort_key fst a) (sort_key fst b)"
proof -
  let ?sa = "sort_key fst a" and ?sb = "sort_key fst b"
  have keys: "map fst ?sa = map fst ?sb"
    using sorted_keys_unique [OF da db same_keys [OF da db len rel]] .
  have l: "length ?sa = length ?sb" using len by simp
  show ?thesis
  proof (rule list_all2_all_nthI [OF l])
    fix n assume n: "n < length ?sa"
    have fk: "fst (?sa ! n) = fst (?sb ! n)"
      using keys n l by (metis nth_map)
    have "?sa ! n \<in> set a" using n by (metis nth_mem set_sort)
    then have "(fst (?sa ! n), snd (?sa ! n)) \<in> set a" by simp
    then obtain w where w: "(fst (?sa ! n), w) \<in> set b" "P (snd (?sa ! n)) w"
      using rel by blast
    have "?sb ! n \<in> set b" using n l by (metis nth_mem set_sort)
    then have "(fst (?sa ! n), snd (?sb ! n)) \<in> set b" using fk by simp
    then have "snd (?sb ! n) = w" using w(1) db by (meson eq_key_imp_eq_value)
    then show "fst (?sa ! n) = fst (?sb ! n) \<and> P (snd (?sa ! n)) (snd (?sb ! n))"
      using fk w(2) by simp
  qed
qed

lemma key_order_equiv_encode:
  assumes "key_order_equiv x y"
  shows "json_encode fr x = json_encode fr y \<and> json_serializable x = json_serializable y
         \<and> is_nested x = is_nested y"
  using assms
proof (induction rule: key_order_equiv.induct)
  case (scalar x)
  show ?case by simp
next
  case (lists xs ys)
  then have "map (json_encode fr) xs = map (json_encode fr) ys
           \<and> list_all json_serializable xs = list_all json_serializable ys"
    by (induction xs ys rule: list_all2_induct) auto
  then show ?case by simp
next
  case (dicts a b)
  let ?P = "\<lambda>v w. key_order_equiv v w \<and> json_encode fr v = json_encode fr w
              \<and> json_serializable v = json_serializable w \<and> is_nested v = is_nested w"
  have rel: "\<forall>k v. (k, v) \<in> set a \<longrightarrow> (\<exists>w. (k, w) \<in> set b \<and> ?P v w)"
    using dicts.IH by blast
  have al: "list_all2 (\<lambda>x y. fst x = fst y \<and> ?P (snd x) (snd y)) (sort_key fst a) (sort_key fst b)"
    using dict_items_aligned [OF dicts.hyps(1) dicts.hyps(2) dicts.hyps(3) rel] .
  then have enc: "map (\<lambda>(k, v). json_quote k @ '': '' @ json_encode fr v) (sort_key fst a)
                = map (\<lambda>(k, v). json_quote k @ '': '' @ json_encode fr v) (sort_key fst b)"
    by (induction rule: list_all2_induct) (auto simp: case_prod_beta)
  from al have "list_all (\<lambda>(k, v). json_serializable v) (sort_key fst a)
              = list_all (\<lambda>(k, v). json_serializable v) (sort_key fst b)"
    by (induction rule: list_all2_induct) (auto simp: case_prod_beta)
  then have ser: "list_all (\<lambda>(k, v). json_serializable v) a = list_all (\<lambda>(k, v). json_serializable v) b"
    by (simp add: list_all_iff)
  show ?case using enc ser by simp
qed

text \<open>
  C2, as the code has it. Two nested values that differ only in key order and that json
  can encode are serialized to the same string, the JSON text with sorted keys. A nested
  value that json cannot encode is replaced by its \<open>str\<close>, which lists keys in insertion
  order. Every value that is neither dict nor list, the missing-value markers included,
  is returned unchanged.
\<close>

theorem safe_serialize_canonical:
  "(key_order_equiv x y \<longrightarrow> is_nested x \<longrightarrow> json_serializable x \<longrightarrow>
      safe_serialize fr x = VStr (json_encode fr x) \<and> safe_serialize fr y = VStr (json_encode fr x))
   \<and> (is_nested x \<longrightarrow> \<not> json_serializable x \<longrightarrow> safe_serialize fr x = VStr (py_str fr x))
   \<and> (\<not> is_nested x \<longrightarrow> safe_serialize fr x = x)"
proof (intro conjI impI)
  assume e: "key_order_equiv x y" and n: "is_nested x" and s: "json_serializable x"
  show "safe_serialize fr x = VStr (json_encode fr x)"
    using n s by (simp add: safe_serialize_def json_dumps_def)
  show "safe_serialize fr y = VStr (json_encode fr x)"
    using key_order_equiv_encode [OF e, of fr] n s by (simp add: safe_serialize_def json_dumps_def)
next
  assume "is_nested x" "\<not> json_serializable x"
  then show "safe_serialize fr x = VStr (py_str fr x)"
    by (simp add: safe_serialize_def json_dumps_def)
next
  assume "\<not> is_nested x"
  then show "safe_serialize fr x = x" by (simp add: safe_serialize_def)
qed

lemma tags_equiv: "key_order_equiv tags_ab tags_ba"
  unfolding tags_ab_def tags_ba_def
  by (rule key_order_equiv.dicts) (auto intro!: key_order_equiv.intros)

lemma stamped_equiv: "key_order_equiv stamped_ab stamped_ba"
  unfolding stamped_ab_def stamped_ba_def
  by (rule key_order_equiv.dicts) (auto intro!: key_order_equiv.intros)

theorem safe_serialize_canonical_witness:
  "key_order_equiv tags_ab tags_ba \<and> is_nested tags_ab \<and> json_serializable tags_ab
   \<and> safe_serialize (\<lambda>q. []) tags_ab = VStr (json_encode (\<lambda>q. []) tags_ab)
   \<and> safe_serialize (\<lambda>q. []) tags_ba = VStr (json_encode (\<lambda>q. []) tags_ab)
   \<and> json_encode (\<lambda>q. []) tags_ab =
        [CHR ''{'', CHR 0x22, CHR ''a'', CHR 0x22, CHR '':'', CHR '' '', CHR ''1'', CHR '','', CHR '' '',
         CHR 0x22, CHR ''b'', CHR 0x22, CHR '':'', CHR '' '', CHR ''['', CHR 0x22, CHR ''x'', CHR 0x22,
         CHR '']'', CHR ''}'']
   \<and> is_nested stamped_ab \<and> \<not> json_serializable stamped_ab
   \<and> safe_serialize (\<lambda>q. []) stamped_ab = VStr (py_str (\<lambda>q. []) stamped_ab)
   \<and> \<not> is_nested (VNull PyNone) \<and> safe_serialize (\<lambda>q. []) (VNull PyNone) = VNull PyNone"
proof -
  have n: "is_nested tags_ab" "json_serializable tags_ab"
    by (simp_all add: tags_ab_def)
  have e: "json_encode (\<lambda>q. []) tags_ab =
        [CHR ''{'', CHR 0x22, CHR ''a'', CHR 0x22, CHR '':'', CHR '' '', CHR ''1'', CHR '','', CHR '' '',
         CHR 0x22, CHR ''b'', CHR 0x22, CHR '':'', CHR '' '', CHR ''['', CHR 0x22, CHR ''x'', CHR 0x22,
         CHR '']'', CHR ''}'']"
    by code_simp
  have s: "is_nested stamped_ab" "\<not> json_serializable stamped_ab"
    by (simp_all add: stamped_ab_def)
  have m: "\<not> is_nested (VNull PyNone)" by simp
  show ?thesis
    using safe_serialize_canonical [of tags_ab tags_ba "\<lambda>q. []"]
      safe_serialize_canonical [of stamped_ab stamped_ba "\<lambda>q. []"]
      safe_serialize_canonical [of "VNull PyNone" "VNull PyNone" "\<lambda>q. []"]
      tags_equiv n e s m
    by simp
qed

text \<open>
  C2 fails as stated: \<open>stamped_ab\<close> and \<open>stamped_ba\<close> differ only in key order, json
  cannot encode the timestamp in them, and the two \<open>str\<close> renderings list the keys in
  their two insertion orders.
\<close>

theorem fallback_keeps_insertion_order:
  "key_order_equiv stamped_ab stamped_ba
   \<and> is_nested stamped_ab \<and> is_nested stamped_ba
   \<and> safe_serialize (\<lambda>q. []) stamped_ab \<noteq> safe_serialize (\<lambda>q. []) stamped_ba"
proof -
  have "safe_serialize (\<lambda>q. []) stamped_ab \<noteq> safe_serialize (\<lambda>q. []) stamped_ba"
    by code_simp
  then show ?thesis using stamped_equiv by (simp add: stamped_ab_def stamped_ba_def)
qed

section \<open>C3: rows that differ in the key order of their tags\<close>

lemma key_order_equiv_scalar: "key_order_equiv x y \<Longrightarrow> \<not> is_nested x \<Longrightarrow> x = y"
  by (erule key_order_equiv.cases) auto

lemma safe_serialize_equiv:
  assumes "key_order_equiv x y" "is_nested x \<longrightarrow> json_serializable x"
  shows "safe_serialize fr x = safe_serialize fr y"
proof (cases "is_nested x")
  case True
  then show ?thesis
    using key_order_equiv_encode [OF assms(1), of fr] assms(2)
    by (simp add: safe_serialize_def json_dumps_def)
next
  case False
  then show ?thesis using key_order_equiv_scalar [OF assms(1)] by simp
qed

lemma distinct_count_le_1: "distinct xs \<Longrightarrow> count_list xs x \<le> 1"
  by (induction xs) (auto simp: count_list_0_iff)

lemma keep_first_length_strict:
  assumes "i < j" "j < length rs" "map hash_key (rs ! i) = map hash_key (rs ! j)"
  shows "length (keep_first seen rs) < length rs"
proof -
  let ?K = "map (map hash_key)"
  have nd: "\<not> distinct (?K rs)"
  proof
    assume d: "distinct (?K rs)"
    have "?K rs ! i = ?K rs ! j" using assms by simp
    moreover have "i < length (?K rs)" "j < length (?K rs)" using assms by simp_all
    ultimately have "i = j" using d nth_eq_iff_index_eq by blast
    then show False using assms(1) by simp
  qed
  have "length (keep_first seen rs) = card (set (?K (keep_first seen rs)))"
    using keep_first_distinct_keys [of seen rs] distinct_card [of "?K (keep_first seen rs)"] by simp
  also have "\<dots> \<le> card (set (?K rs))"
    using keep_first_subset [of seen rs] by (intro card_mono) auto
  also have "\<dots> < length rs"
    using nd card_length [of "?K rs"] card_distinct [of "?K rs"] by force
  finally show ?thesis .
qed

lemma count_list_filter_eq: "count_list xs x = length (filter (\<lambda>e. e = x) xs)"
  by (induction xs) simp_all

text \<open>
  C3, as the code has it. Take a tickets table with a \<open>tags\<close> column and two of its
  rows that agree in every other column, whose tags differ only in key order and are
  values json can encode. Then \<open>clean_tickets\<close> returns and both rows have the same
  serialized form. The two rows collapse into one: exactly one output row is alike to
  that form, as pandas compares cells, unless the form holds a missing cell (which can
  only stand outside \<open>tags\<close>), in which case the null-drop removes it and no output row
  is alike to it. The output row is the serialized form itself when every row alike to
  it is the same row. The output has fewer rows than the input, and no cell of the
  output is a dict or a list.
\<close>

theorem reordered_tags_collapse:
  assumes "i < j" and "j < length (rows (h ! tickets))"
    and "''tags'' \<in> set (columns (h ! tickets))"
    and "length (rows (h ! tickets) ! i) = length (columns (h ! tickets))"
    and "length (rows (h ! tickets) ! j) = length (columns (h ! tickets))"
    and "\<forall>k < length (columns (h ! tickets)).
           (columns (h ! tickets) ! k \<noteq> ''tags'' \<longrightarrow> rows (h ! tickets) ! i ! k = rows (h ! tickets) ! j ! k)
         \<and> (columns (h ! tickets) ! k = ''tags'' \<longrightarrow>
               key_order_equiv (rows (h ! tickets) ! i ! k) (rows (h ! tickets) ! j ! k)
             \<and> (is_nested (rows (h ! tickets) ! i ! k) \<longrightarrow> json_serializable (rows (h ! tickets) ! i ! k)))"
  shows "\<exists>h'. clean_tickets fr tickets h = (Inr (length h), h')
           \<and> ticket_row fr (columns (h ! tickets)) (rows (h ! tickets) ! i)
               = ticket_row fr (columns (h ! tickets)) (rows (h ! tickets) ! j)
           \<and> length (filter (\<lambda>e. alike e (ticket_row fr (columns (h ! tickets)) (rows (h ! tickets) ! i)))
                       (rows (h' ! length h)))
               = (if list_ex isna (ticket_row fr (columns (h ! tickets)) (rows (h ! tickets) ! i)) then 0 else 1)
           \<and> ((\<forall>row2 \<in> set (rows (h ! tickets)).
                   alike (ticket_row fr (columns (h ! tickets)) row2)
                         (ticket_row fr (columns (h ! tickets)) (rows (h ! tickets) ! i))
                   \<longrightarrow> ticket_row fr (columns (h ! tickets)) row2
                         = ticket_row fr (columns (h ! tickets)) (rows (h ! tickets) ! i))
                \<longrightarrow> count_list (rows (h' ! length h)) (ticket_row fr (columns (h ! tickets)) (rows (h ! tickets) ! i))
                      = (if list_ex isna (ticket_row fr (columns (h ! tickets)) (rows (h ! tickets) ! i)) then 0 else 1))
           \<and> length (rows (h' ! length h)) < length (rows (h ! tickets))
           \<and> (\<forall>row \<in> set (rows (h' ! length h)). \<forall>v \<in> set row. \<not> is_nested v)"
proof -
  let ?t = "h ! tickets"
  let ?cols = "columns ?t"
  let ?a = "rows ?t ! i" and ?b = "rows ?t ! j"
  let ?f = "tickets_frame fr ?t"
  let ?out = "dropna (dedup ?f)"
  let ?s = "ticket_row fr ?cols ?a"
  have la: "length (ticket_row fr ?cols ?a) = length ?cols"
    using ticket_row_length_wf [OF assms(4)] assms(4) by simp
  have lb: "length (ticket_row fr ?cols ?b) = length ?cols"
    using ticket_row_length_wf [OF assms(5)] assms(5) by simp
  have same: "ticket_row fr ?cols ?a = ticket_row fr ?cols ?b"
  proof (rule nth_equalityI)
    show "length (ticket_row fr ?cols ?a) = length (ticket_row fr ?cols ?b)" using la lb by simp
  next
    fix k assume "k < length (ticket_row fr ?cols ?a)"
    then have k: "k < length ?cols" using la by simp
    have ca: "ticket_row fr ?cols ?a ! k =
                (if ?cols ! k = ''tags'' then VStr (py_str fr (safe_serialize fr (?a ! k)))
                 else safe_serialize fr (?a ! k))"
      using ticket_row_nth [of k fr ?cols ?a] k la assms(3) by simp
    have cb: "ticket_row fr ?cols ?b ! k =
                (if ?cols ! k = ''tags'' then VStr (py_str fr (safe_serialize fr (?b ! k)))
                 else safe_serialize fr (?b ! k))"
      using ticket_row_nth [of k fr ?cols ?b] k lb assms(3) by simp
    have "safe_serialize fr (?a ! k) = safe_serialize fr (?b ! k)"
    proof (cases "?cols ! k = ''tags''")
      case True
      then show ?thesis using assms(6) k by (intro safe_serialize_equiv) auto
    next
      case False
      then show ?thesis using assms(6) k by simp
    qed
    then show "ticket_row fr ?cols ?a ! k = ticket_row fr ?cols ?b ! k" using ca cb by simp
  qed
  have ne: "\<not> df_empty ?f"
    using assms(2,3) by (auto simp: df_empty_def tickets_frame_def)
  have rows_f: "rows ?f = map (ticket_row fr ?cols) (rows ?t)" by (simp add: tickets_frame_def)
  have dd: "rows (dedup ?f) = keep_first [] (rows ?f)" using ne by (simp add: dedup_def)
  have "length (rows ?out) \<le> length (rows (dedup ?f))" by (simp add: dropna_def)
  also have "\<dots> < length (rows ?f)"
    unfolding dd
  proof (rule keep_first_length_strict [of i j])
    show "i < j" by (rule assms(1))
    show "j < length (rows ?f)" using assms(2) rows_f by simp
    show "map hash_key (rows ?f ! i) = map hash_key (rows ?f ! j)"
      using same assms(1,2) rows_f by simp
  qed
  finally have shorter: "length (rows ?out) < length (rows ?t)" using rows_f by simp
  have ai: "?a \<in> set (rows ?t)" using assms(1,2) by simp
  have sin: "?s \<in> set (rows ?f)" using ai rows_f by simp
  have cne: "columns ?f \<noteq> []" using assms(3) by (auto simp: tickets_frame_def)
  have once: "length (filter (\<lambda>e. alike e ?s) (rows ?out)) = (if list_ex isna ?s then 0 else 1)"
    using cleaned_alike_count [OF sin cne] .
  have itself: "(\<forall>row2 \<in> set (rows ?t). alike (ticket_row fr ?cols row2) ?s \<longrightarrow> ticket_row fr ?cols row2 = ?s)
                \<longrightarrow> count_list (rows ?out) ?s = (if list_ex isna ?s then 0 else 1)"
  proof
    assume u: "\<forall>row2 \<in> set (rows ?t). alike (ticket_row fr ?cols row2) ?s \<longrightarrow> ticket_row fr ?cols row2 = ?s"
    have sub: "set (rows ?out) \<subseteq> set (rows ?f)" using cleaned_rows_subset [of ?f] by auto
    have "filter (\<lambda>e. alike e ?s) (rows ?out) = filter (\<lambda>e. e = ?s) (rows ?out)"
    proof (rule filter_cong [OF refl])
      fix e assume "e \<in> set (rows ?out)"
      then obtain row2 where "row2 \<in> set (rows ?t)" "e = ticket_row fr ?cols row2"
        using sub rows_f by auto
      then show "alike e ?s = (e = ?s)" using u by auto
    qed
    then show "count_list (rows ?out) ?s = (if list_ex isna ?s then 0 else 1)"
      using once by (simp add: count_list_filter_eq)
  qed
  have scalar: "\<forall>row \<in> set (rows ?out). \<forall>v \<in> set row. \<not> is_nested v"
    using rows_dedup_subset [of ?f] by (auto simp: rows_dropna rows_f dest: ticket_row_not_nested)
  have run: "clean_tickets fr tickets h = (Inr (length h), h @ [?out])" by (rule clean_tickets_run)
  have out: "(h @ [?out]) ! length h = ?out" by simp
  show ?thesis
  proof (intro exI [of _ "h @ [?out]"] conjI)
    show "clean_tickets fr tickets h = (Inr (length h), h @ [?out])" by (rule run)
    show "?s = ticket_row fr ?cols ?b" by (rule same)
    show "length (filter (\<lambda>e. alike e ?s) (rows ((h @ [?out]) ! length h))) = (if list_ex isna ?s then 0 else 1)"
      using once by (simp only: out)
    show "(\<forall>row2 \<in> set (rows ?t). alike (ticket_row fr ?cols row2) ?s \<longrightarrow> ticket_row fr ?cols row2 = ?s)
            \<longrightarrow> count_list (rows ((h @ [?out]) ! length h)) ?s = (if list_ex isna ?s then 0 else 1)"
      using itself by (simp only: out)
    show "length (rows ((h @ [?out]) ! length h)) < length (rows ?t)"
      using shorter by (simp only: out)
    show "\<forall>row \<in> set (rows ((h @ [?out]) ! length h)). \<forall>v \<in> set row. \<not> is_nested v"
      using scalar by (simp only: out)
  qed
qed

theorem reordered_tags_collapse_witness:
  "(0 :: nat) < 1 \<and> 1 < length (rows ([reordered_tickets] ! 0))
   \<and> ''tags'' \<in> set (columns ([reordered_tickets] ! 0))
   \<and> key_order_equiv (rows ([reordered_tickets] ! 0) ! 0 ! 1) (rows ([reordered_tickets] ! 0) ! 1 ! 1)
   \<and> json_serializable (rows ([reordered_tickets] ! 0) ! 0 ! 1)
   \<and> rows ([reordered_tickets] ! 0) ! 0 ! 0 = rows ([reordered_tickets] ! 0) ! 1 ! 0
   \<and> clean_tickets (\<lambda>q. []) 0 [reordered_tickets] =
        (Inr 1, [reordered_tickets,
                 \<lparr>columns = [''ticket_id'', ''tags''],
                  rows = [[VStr ''T1'', VStr (json_encode (\<lambda>q. []) tags_ab)]]\<rparr>])
   \<and> length (rows (snd (clean_tickets (\<lambda>q. []) 0 [reordered_tickets]) ! 1)) < length (rows reordered_tickets)
   \<and> length (filter (\<lambda>e. alike e [VStr ''T1'', VStr (json_encode (\<lambda>q. []) tags_ab)])
                (rows (snd (clean_tickets (\<lambda>q. []) 0 [reordered_tickets]) ! 1))) = 1"
proof -
  have a: "(0 :: nat) < 1" by simp
  have b: "1 < length (rows ([reordered_tickets] ! 0))" by (simp add: reordered_tickets_def)
  have c: "''tags'' \<in> set (columns ([reordered_tickets] ! 0))" by (simp add: reordered_tickets_def)
  have d: "length (rows ([reordered_tickets] ! 0) ! 0) = length (columns ([reordered_tickets] ! 0))"
    by (simp add: reordered_tickets_def)
  have e: "length (rows ([reordered_tickets] ! 0) ! 1) = length (columns ([reordered_tickets] ! 0))"
    by (simp add: reordered_tickets_def)
  have ser: "json_serializable tags_ab" by (simp add: tags_ab_def)
  have f: "\<forall>k < length (columns ([reordered_tickets] ! 0)).
           (columns ([reordered_tickets] ! 0) ! k \<noteq> ''tags'' \<longrightarrow>
              rows ([reordered_tickets] ! 0) ! 0 ! k = rows ([reordered_tickets] ! 0) ! 1 ! k)
         \<and> (columns ([reordered_tickets] ! 0) ! k = ''tags'' \<longrightarrow>
               key_order_equiv (rows ([reordered_tickets] ! 0) ! 0 ! k) (rows ([reordered_tickets] ! 0) ! 1 ! k)
             \<and> (is_nested (rows ([reordered_tickets] ! 0) ! 0 ! k) \<longrightarrow>
                  json_serializable (rows ([reordered_tickets] ! 0) ! 0 ! k)))"
    using tags_equiv ser by (simp add: reordered_tickets_def less_Suc_eq_0_disj)
  have run: "clean_tickets (\<lambda>q. []) 0 [reordered_tickets] =
        (Inr 1, [reordered_tickets,
                 \<lparr>columns = [''ticket_id'', ''tags''],
                  rows = [[VStr ''T1'', VStr (json_encode (\<lambda>q. []) tags_ab)]]\<rparr>])"
    by code_simp
  have g: "key_order_equiv (rows ([reordered_tickets] ! 0) ! 0 ! 1) (rows ([reordered_tickets] ! 0) ! 1 ! 1)"
    using tags_equiv by (simp add: reordered_tickets_def)
  have i: "json_serializable (rows ([reordered_tickets] ! 0) ! 0 ! 1)"
    using ser by (simp add: reordered_tickets_def)
  have j: "rows ([reordered_tickets] ! 0) ! 0 ! 0 = rows ([reordered_tickets] ! 0) ! 1 ! 0"
    by (simp add: reordered_tickets_def)
  let ?s = "ticket_row (\<lambda>q. []) (columns ([reordered_tickets] ! 0)) (rows ([reordered_tickets] ! 0) ! 0)"
  obtain h' where h': "clean_tickets (\<lambda>q. []) 0 [reordered_tickets] = (Inr (length [reordered_tickets]), h')"
    and cnt: "length (filter (\<lambda>e. alike e ?s) (rows (h' ! length [reordered_tickets])))
                = (if list_ex isna ?s then 0 else 1)"
    and sh: "length (rows (h' ! length [reordered_tickets])) < length (rows ([reordered_tickets] ! 0))"
    using reordered_tags_collapse [OF a b c d e f, of "\<lambda>q. []"] by blast
  have hs: "h' = snd (clean_tickets (\<lambda>q. []) 0 [reordered_tickets])" using h' by simp
  have sv: "?s = [VStr ''T1'', VStr (json_encode (\<lambda>q. []) tags_ab)]" by code_simp
  have k: "length (rows (snd (clean_tickets (\<lambda>q. []) 0 [reordered_tickets]) ! 1)) < length (rows reordered_tickets)"
    using sh hs by simp
  have l: "length (filter (\<lambda>e. alike e [VStr ''T1'', VStr (json_encode (\<lambda>q. []) tags_ab)])
                (rows (snd (clean_tickets (\<lambda>q. []) 0 [reordered_tickets]) ! 1))) = 1"
    using cnt unfolding sv hs by simp
  show ?thesis using a b c g i j run k l by blast
qed

text \<open>
  C3 fails as stated, in two ways. The two rows of \<open>stamped_tickets\<close> differ only in
  the key order of their tags, but json cannot encode the timestamp in them, the two
  \<open>str\<close> renderings differ, and both rows remain. The two rows of
  \<open>null_status_tickets\<close> differ only in the key order of their tags, which json can
  encode; they collapse, and the null-drop removes the one row that is left, for its
  missing status: the output has no row.
\<close>

theorem stamped_tags_stay_apart:
  "key_order_equiv (rows stamped_tickets ! 0 ! 1) (rows stamped_tickets ! 1 ! 1)
   \<and> rows stamped_tickets ! 0 ! 0 = rows stamped_tickets ! 1 ! 0
   \<and> fst (clean_tickets (\<lambda>q. []) 0 [stamped_tickets]) = Inr 1
   \<and> length (rows (snd (clean_tickets (\<lambda>q. []) 0 [stamped_tickets]) ! 1)) = 2
   \<and> key_order_equiv (rows null_status_tickets ! 0 ! 2) (rows null_status_tickets ! 1 ! 2)
   \<and> json_serializable (rows null_status_tickets ! 0 ! 2)
   \<and> rows null_status_tickets ! 0 ! 0 = rows null_status_tickets ! 1 ! 0
   \<and> rows null_status_tickets ! 0 ! 1 = rows null_status_tickets ! 1 ! 1
   \<and> clean_tickets (\<lambda>q. []) 0 [null_status_tickets] =
        (Inr 1, [null_status_tickets, \<lparr>columns = [''ticket_id'', ''status'', ''tags''], rows = []\<rparr>])"
proof -
  have a: "fst (clean_tickets (\<lambda>q. []) 0 [stamped_tickets]) = Inr 1
      \<and> length (rows (snd (clean_tickets (\<lambda>q. []) 0 [stamped_tickets]) ! 1)) = 2"
    by code_simp
  have b: "clean_tickets (\<lambda>q. []) 0 [null_status_tickets] =
        (Inr 1, [null_status_tickets, \<lparr>columns = [''ticket_id'', ''status'', ''tags''], rows = []\<rparr>])"
    by code_simp
  have c: "json_serializable tags_ab" by (simp add: tags_ab_def)
  show ?thesis using a b c stamped_equiv tags_equiv
    by (simp add: stamped_tickets_def null_status_tickets_def)
qed

section \<open>C6: a date that cannot be parsed\<close>

lemma positions_nonempty:
  "k < length (columns t) \<Longrightarrow> columns t ! k = name \<Longrightarrow> positions name t \<noteq> []"
  by (auto simp: positions_def filter_empty_conv)

lemma positions_columns: "columns a = columns b \<Longrightarrow> positions name a = positions name b"
  by (simp add: positions_def)

lemma getitem_error_cases:
  "positions name t \<noteq> [] \<Longrightarrow> (\<forall>i. positions name t \<noteq> [i]) \<Longrightarrow> getitem t name = Inl ValueError"
  by (auto simp: getitem_def split: list.splits)

lemma wf_row: "wf_table t \<Longrightarrow> row \<in> set (rows t) \<Longrightarrow> length row = length (columns t)"
  by (simp add: wf_table_def list_all_iff)

lemma alike_update: "alike a b \<Longrightarrow> alike (a[i := v]) (b[i := v])"
  by (simp add: alike_def map_update)

lemma clean_orders_raises_iff:
  assumes "r < length h"
    and "positions ''ordered_at'' (h ! r) = [i]"
    and "\<not> list_ex (list_ex is_nested) (rows (h ! r))"
  shows "(fst (clean_orders parse r h) = Inl ValueError)
           = list_ex (\<lambda>row. read_datetime parse (row ! i) = Unparseable)
               (rows (dropna (dedup (renamed_orders (h ! r)))))"
    and "fst (clean_orders parse r h) = Inl ValueError \<or> (\<exists>out. clean_orders parse r h = (Inr r, h[r := out]))"
proof -
  let ?t1 = "renamed_orders (h ! r)"
  let ?mid = "dropna (dedup ?t1)"
  have dd: "drop_duplicates ?t1 = Inr (dedup ?t1)"
    using assms(3) by (intro drop_duplicates_hashable) simp
  have run: "clean_orders parse r h =
      (case assign_ordered_at parse ?mid of
         Inl e \<Rightarrow> (Inl e, h[r := ?mid])
       | Inr t3 \<Rightarrow> (Inr r, h[r := t3]))"
    using dd by (simp add: clean_orders_run [OF assms(1)])
  have "positions ''ordered_at'' ?mid = positions ''ordered_at'' ?t1" by (simp add: positions_def)
  then have p: "positions ''ordered_at'' ?mid = [i]" using assms(2) by simp
  show "(fst (clean_orders parse r h) = Inl ValueError)
           = list_ex (\<lambda>row. read_datetime parse (row ! i) = Unparseable) (rows ?mid)"
  proof (cases "list_ex (\<lambda>row. read_datetime parse (row ! i) = Unparseable) (rows ?mid)")
    case True
    then obtain row where "row \<in> set (rows ?mid)" "read_datetime parse (row ! i) = Unparseable"
      by (auto simp: list_ex_iff)
    then have "assign_ordered_at parse ?mid = Inl ValueError"
      using assign_ordered_at_unparseable [OF p] by blast
    then show ?thesis using True run by simp
  next
    case False
    then have "\<forall>row \<in> set (rows ?mid). read_datetime parse (row ! i) \<noteq> Unparseable"
      by (auto simp: list_ex_iff)
    then obtain t3 where "assign_ordered_at parse ?mid = Inr t3"
      using assign_ordered_at_ok [OF p] by blast
    then show ?thesis using False run by simp
  qed
  show "fst (clean_orders parse r h) = Inl ValueError \<or> (\<exists>out. clean_orders parse r h = (Inr r, h[r := out]))"
  proof (cases "assign_ordered_at parse ?mid")
    case (Inl e)
    then have "e = ValueError" using assign_ordered_at_error [OF _ p] by blast
    then show ?thesis using Inl run by simp
  next
    case (Inr t3)
    then show ?thesis using run by auto
  qed
qed

lemma complete_text_row_survives:
  assumes "wf_table t" "positions ''ordered_at'' t = [i]"
    and "row \<in> set (rows t)" "\<not> list_ex isna row" "row ! i = VStr s"
  shows "\<exists>e \<in> set (rows (dropna (dedup (renamed_orders t)))). alike e row \<and> e ! i = VStr s"
proof -
  have "row \<in> set (rows (renamed_orders t))" using assms(3) by simp
  then obtain e where e: "e \<in> set (rows (dropna (dedup (renamed_orders t))))" "alike e row"
    using cleaned_keeps_alike [of row "renamed_orders t"] assms(4) by blast
  have "i < length (columns t)" using positions_in [OF assms(2)] by simp
  then have "i < length row" using wf_row [OF assms(1,3)] by simp
  then have "i < length e" using alike_length [OF e(2)] by simp
  then have "e ! i = VStr s" using alike_str_cell [OF e(2)] assms(5) by blast
  then show ?thesis using e by blast
qed

text \<open>
  C6, as the code has it, for a well-formed orders frame with hashable cells and one
  \<open>ordered_at\<close> column. The dates are parsed after the duplicate and null drops.

  \<^item> \<open>clean_orders\<close> raises ValueError, and returns no table, exactly when a row that is
    left after those drops holds a date that is rejected; otherwise it returns.
  \<^item> So it raises whenever a row without a missing cell holds a rejected text.
  \<^item> A row with a missing cell is dropped before the dates are parsed, whatever its date:
    when every rejected date stands in such a row, \<open>clean_orders\<close> returns, and every
    row without a missing cell whose text is read as a timestamp is kept with that
    timestamp (the output row is alike to it, as pandas compares cells).

  A date that is read as missing is not rejected (the empty string is read so), and
  raises nothing.
\<close>

theorem unparseable_date_raises:
  assumes "r < length h"
    and "wf_table (h ! r)"
    and "positions ''ordered_at'' (h ! r) = [i]"
    and "\<not> list_ex (list_ex is_nested) (rows (h ! r))"
  shows "(fst (clean_orders parse r h) = Inl ValueError)
           = list_ex (\<lambda>row. read_datetime parse (row ! i) = Unparseable)
               (rows (dropna (dedup (renamed_orders (h ! r)))))
       \<and> (fst (clean_orders parse r h) = Inl ValueError \<or> (\<exists>out. clean_orders parse r h = (Inr r, h[r := out])))
       \<and> (\<forall>row \<in> set (rows (h ! r)).
             \<not> list_ex isna row \<and> (\<exists>s. row ! i = VStr s) \<and> read_datetime parse (row ! i) = Unparseable
             \<longrightarrow> fst (clean_orders parse r h) = Inl ValueError)
       \<and> (list_all (\<lambda>row. list_ex isna row \<or> read_datetime parse (row ! i) \<noteq> Unparseable) (rows (h ! r)) \<longrightarrow>
             (\<exists>out. clean_orders parse r h = (Inr r, h[r := out])
                \<and> (\<forall>row \<in> set (rows (h ! r)). \<forall>s t.
                      \<not> list_ex isna row \<and> row ! i = VStr s \<and> read_datetime parse (row ! i) = Parsed t
                      \<longrightarrow> (\<exists>kept \<in> set (rows out). alike kept (row[i := VTimestamp t])))))
       \<and> read_datetime parse (VStr []) = Missing"
proof (intro conjI)
  let ?mid = "dropna (dedup (renamed_orders (h ! r)))"
  note iff = clean_orders_raises_iff [OF assms(1,3,4), of parse]
  show "(fst (clean_orders parse r h) = Inl ValueError)
           = list_ex (\<lambda>row. read_datetime parse (row ! i) = Unparseable) (rows ?mid)"
    by (rule iff(1))
  show "fst (clean_orders parse r h) = Inl ValueError \<or> (\<exists>out. clean_orders parse r h = (Inr r, h[r := out]))"
    by (rule iff(2))
  show "\<forall>row \<in> set (rows (h ! r)).
             \<not> list_ex isna row \<and> (\<exists>s. row ! i = VStr s) \<and> read_datetime parse (row ! i) = Unparseable
             \<longrightarrow> fst (clean_orders parse r h) = Inl ValueError"
  proof (intro ballI impI)
    fix row assume row: "row \<in> set (rows (h ! r))"
      and c: "\<not> list_ex isna row \<and> (\<exists>s. row ! i = VStr s) \<and> read_datetime parse (row ! i) = Unparseable"
    then obtain s where s: "row ! i = VStr s" by blast
    obtain e where e: "e \<in> set (rows ?mid)" "e ! i = VStr s"
      using complete_text_row_survives [OF assms(2,3) row _ s] c by blast
    have c3: "read_datetime parse (row ! i) = Unparseable" using c by blast
    have "e ! i = row ! i" using e(2) s by simp
    then have "read_datetime parse (e ! i) = Unparseable" using c3 by (simp only:)
    then have "list_ex (\<lambda>row. read_datetime parse (row ! i) = Unparseable) (rows ?mid)"
      using e(1) by (auto simp: list_ex_iff)
    then show "fst (clean_orders parse r h) = Inl ValueError" using iff(1) by simp
  qed
  show "list_all (\<lambda>row. list_ex isna row \<or> read_datetime parse (row ! i) \<noteq> Unparseable) (rows (h ! r)) \<longrightarrow>
             (\<exists>out. clean_orders parse r h = (Inr r, h[r := out])
                \<and> (\<forall>row \<in> set (rows (h ! r)). \<forall>s t.
                      \<not> list_ex isna row \<and> row ! i = VStr s \<and> read_datetime parse (row ! i) = Parsed t
                      \<longrightarrow> (\<exists>kept \<in> set (rows out). alike kept (row[i := VTimestamp t]))))"
  proof
    assume ok: "list_all (\<lambda>row. list_ex isna row \<or> read_datetime parse (row ! i) \<noteq> Unparseable) (rows (h ! r))"
    have sub: "set (rows ?mid) \<subseteq> {row \<in> set (rows (h ! r)). \<not> list_ex isna row}"
      using cleaned_rows_subset [of "renamed_orders (h ! r)"] by simp
    have "\<forall>row \<in> set (rows ?mid). read_datetime parse (row ! i) \<noteq> Unparseable"
    proof
      fix row assume "row \<in> set (rows ?mid)"
      then have "row \<in> set (rows (h ! r))" "\<not> list_ex isna row" using sub by auto
      then show "read_datetime parse (row ! i) \<noteq> Unparseable"
        using ok unfolding list_all_iff by blast
    qed
    then have "\<not> list_ex (\<lambda>row. read_datetime parse (row ! i) = Unparseable) (rows ?mid)"
      unfolding list_ex_iff by blast
    then have "fst (clean_orders parse r h) \<noteq> Inl ValueError" using iff(1) by simp
    then obtain out where run: "clean_orders parse r h = (Inr r, h[r := out])" using iff(2) by blast
    have o: "h[r := out] ! r = out" using assms(1) by simp
    obtain i' where "positions ''ordered_at'' (renamed_orders (h ! r)) = [i']"
      and rows': "rows out = map (\<lambda>row. row[i' := datetime_cell (read_datetime parse (row ! i'))]) (rows ?mid)"
      using clean_orders_output [OF assms(1) run] o by auto
    then have "i' = i" using assms(3) by simp
    then have rows: "rows out = map (\<lambda>row. row[i := datetime_cell (read_datetime parse (row ! i))]) (rows ?mid)"
      using rows' by simp
    have kept: "\<forall>row \<in> set (rows (h ! r)). \<forall>s t.
                      \<not> list_ex isna row \<and> row ! i = VStr s \<and> read_datetime parse (row ! i) = Parsed t
                      \<longrightarrow> (\<exists>kept \<in> set (rows out). alike kept (row[i := VTimestamp t]))"
    proof (intro ballI allI impI)
      fix row s t assume row: "row \<in> set (rows (h ! r))"
        and c: "\<not> list_ex isna row \<and> row ! i = VStr s \<and> read_datetime parse (row ! i) = Parsed t"
      obtain e where e: "e \<in> set (rows ?mid)" "alike e row" "e ! i = VStr s"
        using complete_text_row_survives [OF assms(2,3) row] c by blast
      have c2: "row ! i = VStr s" and c3: "read_datetime parse (row ! i) = Parsed t" using c by blast+
      have "e ! i = row ! i" using e(3) c2 by simp
      then have "read_datetime parse (e ! i) = Parsed t" using c3 by (simp only:)
      then have "datetime_cell (read_datetime parse (e ! i)) = VTimestamp t" by simp
      then have "e[i := VTimestamp t] \<in> set (rows out)" using e(1) rows by force
      moreover have "alike (e[i := VTimestamp t]) (row[i := VTimestamp t])"
        using e(2) by (rule alike_update)
      ultimately show "\<exists>kept \<in> set (rows out). alike kept (row[i := VTimestamp t])" by blast
    qed
    show "\<exists>out. clean_orders parse r h = (Inr r, h[r := out])
                \<and> (\<forall>row \<in> set (rows (h ! r)). \<forall>s t.
                      \<not> list_ex isna row \<and> row ! i = VStr s \<and> read_datetime parse (row ! i) = Parsed t
                      \<longrightarrow> (\<exists>kept \<in> set (rows out). alike kept (row[i := VTimestamp t])))"
      using run kept by blast
  qed
  show "read_datetime parse (VStr []) = Missing" by (simp add: read_datetime_def)
qed

theorem unparseable_date_raises_witness:
  "(0 :: nat) < length [bad_date_complete]
   \<and> wf_table ([bad_date_complete] ! 0)
   \<and> positions ''ordered_at'' ([bad_date_complete] ! 0) = [1]
   \<and> \<not> list_ex (list_ex is_nested) (rows ([bad_date_complete] ! 0))
   \<and> [VStr ''ORD-001'', VStr ''yesterday'', VInt 10] \<in> set (rows ([bad_date_complete] ! 0))
   \<and> \<not> list_ex isna [VStr ''ORD-001'', VStr ''yesterday'', VInt 10]
   \<and> read_datetime parse_ymd ([VStr ''ORD-001'', VStr ''yesterday'', VInt 10] ! 1) = Unparseable
   \<and> fst (clean_orders parse_ymd 0 [bad_date_complete]) = Inl ValueError
   \<and> wf_table ([bad_date_orders] ! 0)
   \<and> positions ''ordered_at'' ([bad_date_orders] ! 0) = [1]
   \<and> \<not> list_ex (list_ex is_nested) (rows ([bad_date_orders] ! 0))
   \<and> list_all (\<lambda>row. list_ex isna row \<or> read_datetime parse_ymd (row ! 1) \<noteq> Unparseable) (rows ([bad_date_orders] ! 0))
   \<and> fst (clean_orders parse_ymd 0 [bad_date_orders]) = Inr 0"
proof -
  have a: "(0 :: nat) < length [bad_date_complete]" "(0 :: nat) < length [bad_date_orders]" by simp_all
  have w: "wf_table ([bad_date_complete] ! 0)" "wf_table ([bad_date_orders] ! 0)"
    by (simp_all add: wf_table_def bad_date_complete_def bad_date_orders_def)
  have p: "positions ''ordered_at'' ([bad_date_complete] ! 0) = [1]"
    "positions ''ordered_at'' ([bad_date_orders] ! 0) = [1]"
    by code_simp+
  have n: "\<not> list_ex (list_ex is_nested) (rows ([bad_date_complete] ! 0))"
    "\<not> list_ex (list_ex is_nested) (rows ([bad_date_orders] ! 0))"
    by (simp_all add: bad_date_complete_def bad_date_orders_def)
  have b: "[VStr ''ORD-001'', VStr ''yesterday'', VInt 10] \<in> set (rows ([bad_date_complete] ! 0))"
    by (simp add: bad_date_complete_def)
  have c: "\<not> list_ex isna [VStr ''ORD-001'', VStr ''yesterday'', VInt 10]" by simp
  have f: "read_datetime parse_ymd ([VStr ''ORD-001'', VStr ''yesterday'', VInt 10] ! 1) = Unparseable"
    by code_simp
  have f2: "read_datetime parse_ymd (VStr ''2024-01-02'') = Parsed (Stamp 2024 1 2 0 0 0)" by code_simp
  have s: "\<exists>s. [VStr ''ORD-001'', VStr ''yesterday'', VInt 10] ! 1 = VStr s" by simp
  note th1 = unparseable_date_raises [OF a(1) w(1) p(1) n(1), of parse_ymd]
  have "\<forall>row \<in> set (rows ([bad_date_complete] ! 0)).
             \<not> list_ex isna row \<and> (\<exists>s. row ! 1 = VStr s) \<and> read_datetime parse_ymd (row ! 1) = Unparseable
             \<longrightarrow> fst (clean_orders parse_ymd 0 [bad_date_complete]) = Inl ValueError"
    using th1 by blast
  then have g: "fst (clean_orders parse_ymd 0 [bad_date_complete]) = Inl ValueError"
    using b c s f by blast
  have l: "list_all (\<lambda>row. list_ex isna row \<or> read_datetime parse_ymd (row ! 1) \<noteq> Unparseable)
             (rows ([bad_date_orders] ! 0))"
    using f2 by (simp add: bad_date_orders_def)
  note th2 = unparseable_date_raises [OF a(2) w(2) p(2) n(2), of parse_ymd]
  have "list_all (\<lambda>row. list_ex isna row \<or> read_datetime parse_ymd (row ! 1) \<noteq> Unparseable)
             (rows ([bad_date_orders] ! 0)) \<longrightarrow>
          (\<exists>out. clean_orders parse_ymd 0 [bad_date_orders] = (Inr 0, [bad_date_orders][0 := out]))"
    using th2 by blast
  then have k: "fst (clean_orders parse_ymd 0 [bad_date_orders]) = Inr 0" using l by auto
  show ?thesis using a(1) w p n b c f g l k by blast
qed

text \<open>
  C6 fails as stated, in two ways. The first row of \<open>bad_date_orders\<close> has a date that
  is rejected, and also a missing \<open>tax_paid\<close>: the null-drop removes the row before the
  dates are parsed, and \<open>clean_orders\<close> returns the other row. The first row of
  \<open>blank_date_orders\<close> has no missing cell and an empty date, which is no timestamp:
  it is read as NaT, nothing is raised, and the row is returned with the other one.
\<close>

theorem unparseable_date_dropped_with_null:
  "read_datetime parse_ymd (rows bad_date_orders ! 0 ! 1) = Unparseable
   \<and> columns bad_date_orders ! 1 = ''ordered_at''
   \<and> clean_orders parse_ymd 0 [bad_date_orders] =
       (Inr 0, [\<lparr>columns = [''order_id'', ''ordered_at'', ''tax_paid''],
                 rows = [[VStr ''ORD-002'', VTimestamp (Stamp 2024 1 2 0 0 0), VInt 15]]\<rparr>])
   \<and> rows blank_date_orders ! 0 ! 1 = VStr []
   \<and> columns blank_date_orders ! 1 = ''ordered_at''
   \<and> clean_orders parse_ymd 0 [blank_date_orders] =
       (Inr 0, [\<lparr>columns = [''order_id'', ''ordered_at''],
                 rows = [[VStr ''ORD-001'', VNull NaT],
                         [VStr ''ORD-002'', VTimestamp (Stamp 2024 1 2 0 0 0)]]\<rparr>])"
  by code_simp

section \<open>C7: the columns of the cleaned orders\<close>

lemma renamed_columns:
  "''id'' \<notin> set (columns (renamed_orders t))
   \<and> (''order_id'' \<in> set (columns (renamed_orders t))
        \<longleftrightarrow> ''id'' \<in> set (columns t) \<or> ''order_id'' \<in> set (columns t))"
  by (auto simp: renamed_orders_def rename_columns_def)

text \<open>
  C7, as the code has it. Whenever \<open>clean_orders\<close> returns, its output has no column
  named \<open>id\<close>; it has a column named \<open>order_id\<close> exactly when the input had a column
  named \<open>id\<close> or \<open>order_id\<close>; and it has one \<open>ordered_at\<close> column, whose cells are
  timestamps or NaT.
\<close>

theorem cleaned_orders_columns:
  assumes "r < length h" and "clean_orders parse r h = (Inr r', h')"
  shows "''id'' \<notin> set (columns (h' ! r'))
       \<and> (''order_id'' \<in> set (columns (h' ! r'))
            \<longleftrightarrow> ''id'' \<in> set (columns (h ! r)) \<or> ''order_id'' \<in> set (columns (h ! r)))
       \<and> (\<exists>i. positions ''ordered_at'' (h' ! r') = [i]
              \<and> (\<forall>row \<in> set (rows (h' ! r')). i < length row \<longrightarrow> is_datetime (row ! i)))"
proof -
  let ?t1 = "renamed_orders (h ! r)"
  let ?mid = "rows (dropna (dedup ?t1))"
  obtain i where i: "positions ''ordered_at'' ?t1 = [i]"
    and cols: "columns (h' ! r') = columns ?t1"
    and rows: "rows (h' ! r') = map (\<lambda>row. row[i := datetime_cell (read_datetime parse (row ! i))]) ?mid"
    using clean_orders_output [OF assms] by blast
  have p: "positions ''ordered_at'' (h' ! r') = [i]"
    using i cols by (simp add: positions_def)
  have dt: "\<And>p. is_datetime (datetime_cell p)"
  proof -
    fix p show "is_datetime (datetime_cell p)" by (cases p) simp_all
  qed
  have cells: "\<forall>row \<in> set (rows (h' ! r')). i < length row \<longrightarrow> is_datetime (row ! i)"
    using rows dt by auto
  show ?thesis using renamed_columns [of "h ! r"] cols p cells by auto
qed

theorem cleaned_orders_columns_witness:
  "(0 :: nat) < length [sample_orders]
   \<and> clean_orders parse_ymd 0 [sample_orders] =
        (Inr 0, [\<lparr>columns = [''order_id'', ''ordered_at''],
                  rows = [[VStr ''ORD-001'', VTimestamp (Stamp 2024 1 1 0 0 0)],
                          [VStr ''ORD-002'', VTimestamp (Stamp 2024 1 2 0 0 0)]]\<rparr>])
   \<and> ''id'' \<in> set (columns sample_orders)
   \<and> ''id'' \<notin> set [''order_id'', ''ordered_at'']
   \<and> ''order_id'' \<in> set [''order_id'', ''ordered_at'']"
proof -
  have a: "(0 :: nat) < length [sample_orders]" by simp
  have c3: "clean_orders parse_ymd 0 [sample_orders] =
        (Inr 0, [\<lparr>columns = [''order_id'', ''ordered_at''],
                  rows = [[VStr ''ORD-001'', VTimestamp (Stamp 2024 1 1 0 0 0)],
                          [VStr ''ORD-002'', VTimestamp (Stamp 2024 1 2 0 0 0)]]\<rparr>])"
    by code_simp
  show ?thesis using cleaned_orders_columns [OF a c3] a c3 by (simp add: sample_orders_def)
qed

text \<open>
  C7 fails as stated: \<open>keyless_orders\<close> has neither \<open>id\<close> nor \<open>order_id\<close>, the renaming
  step is skipped, and the output has no \<open>order_id\<close> column.
\<close>

theorem no_id_no_order_id:
  "clean_orders parse_ymd 0 [keyless_orders] =
       (Inr 0, [\<lparr>columns = [''customer'', ''ordered_at''],
                 rows = [[VInt 1, VTimestamp (Stamp 2024 1 1 0 0 0)]]\<rparr>])
   \<and> ''order_id'' \<notin> set [''customer'', ''ordered_at'']"
  by code_simp

section \<open>C8: tickets per order\<close>


lemma suffix_differs: "c @ [a, b] \<noteq> d @ [a', b']" if "b \<noteq> b'" for c d :: string
proof
  assume "c @ [a, b] = d @ [a', b']"
  then have "last (c @ [a, b]) = last (d @ [a', b'])" by simp
  then show False using that by simp
qed

lemma x_not_order_id [simp]: "c @ ''_x'' \<noteq> ''order_id''" "c @ ''_y'' \<noteq> ''order_id''"
  "c @ ''_x'' \<noteq> ''ticket_id''" "c @ ''_y'' \<noteq> ''ticket_id''"
  using suffix_differs [of "CHR ''x''" "CHR ''d''" c "CHR ''_''" "''order_'' " "CHR ''i''"]
    suffix_differs [of "CHR ''y''" "CHR ''d''" c "CHR ''_''" "''order_'' " "CHR ''i''"]
    suffix_differs [of "CHR ''x''" "CHR ''d''" c "CHR ''_''" "''ticket_'' " "CHR ''i''"]
    suffix_differs [of "CHR ''y''" "CHR ''d''" c "CHR ''_''" "''ticket_'' " "CHR ''i''"]
  by simp_all









lemma set_insert_key [simp]: "set (insert_key k xs) = insert k (set xs)"
  by (induction xs) auto

lemma distinct_insert_key [simp]: "distinct (insert_key k xs) = (k \<notin> set xs \<and> distinct xs)"
  by (induction xs) auto

lemma set_sort_keys [simp]: "set (sort_keys ks) = set ks"
  by (induction ks) (simp_all add: sort_keys_def)

lemma distinct_sort_keys [simp]: "distinct (sort_keys ks) = distinct ks"
  using set_sort_keys by (induction ks) (simp_all add: sort_keys_def)

















lemma count_list_map_filter: "count_list (map f xs) k = length (filter (\<lambda>x. f x = k) xs)"
  by (induction xs) simp_all






text \<open>
  An order id that stands in two order rows: in \<open>repeated_orders\<close> the id \<open>ORD-001\<close>
  stands twice, and \<open>one_ticket\<close> has one ticket for it. The join pairs the ticket with
  both order rows, and the number reported is 2.
\<close>

lemma repeated_order_id_multiplies:
  "create_tickets_per_order 0 1 [repeated_orders, one_ticket] =
        (Inr 2, [repeated_orders, one_ticket,
                 \<lparr>columns = [''order_id'', ''number_of_tickets''],
                  rows = [[VStr ''ORD-001'', VInt 2]]\<rparr>])
   \<and> length (filter (\<lambda>row. row ! 1 = VStr ''ORD-001'') (rows one_ticket)) = 1
   \<and> columns one_ticket ! 1 = ''order_id''"
  by code_simp

text \<open>
  Keys that are equal in value: the integer 1 among the orders and the float 1.0 among
  the tickets are one key. The integer column is cast to float for the join, and the
  order id of the output row is the float.
\<close>

lemma int_and_float_keys_match:
  "create_tickets_per_order 0 1
     [int_id_orders, \<lparr>columns = [''ticket_id'', ''order_id''], rows = [[VStr ''TCK-001'', VFloat 1]]\<rparr>] =
     (Inr 2, [int_id_orders, \<lparr>columns = [''ticket_id'', ''order_id''], rows = [[VStr ''TCK-001'', VFloat 1]]\<rparr>,
              \<lparr>columns = [''order_id'', ''number_of_tickets''], rows = [[VFloat 1, VInt 1]]\<rparr>])"
  by code_simp

section \<open>Decoding what the encoder writes\<close>

lemma digit_char: "d < 10 \<Longrightarrow> of_char (char_of (48 + d)) = (48 + d :: nat)"
  by simp

lemma is_digit_char_of: "(d :: nat) < 10 \<Longrightarrow> is_digit (char_of (48 + d))"
  by (simp add: is_digit_def)

lemma char_of_48: "char_of (48 :: nat) = CHR ''0''"
proof -
  have "of_char (char_of (48 :: nat)) = (of_char (CHR ''0'') :: nat)" by simp
  then show ?thesis by (simp only: of_char_eq_iff)
qed

lemma dec_digits: "list_all is_digit (dec n)"
  by (induction n rule: dec.induct) (subst dec.simps, simp add: is_digit_char_of)

lemma dec_nonempty: "dec n \<noteq> []"
  by (subst dec.simps) simp

lemma dec_hd_zero: "hd (dec n) = CHR ''0'' \<Longrightarrow> n = 0"
proof (induction n rule: dec.induct)
  case (1 n)
  show ?case
  proof (cases "n < 10")
    case True
    then have "dec n = [char_of (48 + n)]" by (subst dec.simps) simp
    then have "char_of (48 + n) = CHR ''0''" using 1(2) by simp
    then have "of_char (char_of (48 + n)) = (of_char (CHR ''0'') :: nat)" by simp
    then show ?thesis using True by simp
  next
    case False
    then have "dec n = dec (n div 10) @ [char_of (48 + n mod 10)]" by (subst dec.simps) simp
    then have "hd (dec n) = hd (dec (n div 10))" using dec_nonempty by simp
    then have "n div 10 = 0" using 1 False by simp
    then show ?thesis using False by simp
  qed
qed

lemma digits_val_snoc: "digits_val (s @ [c]) = 10 * digits_val s + (of_char c - 48)"
  by (simp add: digits_val_def)

lemma digits_val_dec: "digits_val (dec n) = n"
proof (induction n rule: dec.induct)
  case (1 n)
  show ?case
  proof (cases "n < 10")
    case True
    then have "dec n = [char_of (48 + n)]" by (subst dec.simps) simp
    then show ?thesis using True by (simp add: digits_val_def)
  next
    case False
    then have d: "dec n = dec (n div 10) @ [char_of (48 + n mod 10)]" by (subst dec.simps) simp
    have "digits_val (dec n) = 10 * (n div 10) + n mod 10"
      unfolding d digits_val_snoc using 1 False by simp
    then show ?thesis by simp
  qed
qed

lemma dec_nat_literal: "is_nat_literal (dec n)"
proof -
  have "hd (dec n) = CHR ''0'' \<longrightarrow> dec n = ''0''"
  proof
    assume "hd (dec n) = CHR ''0''"
    then have "n = 0" by (rule dec_hd_zero)
    then show "dec n = ''0''" by (subst dec.simps) (simp add: char_of_48)
  qed
  then show ?thesis using dec_digits dec_nonempty by (simp add: is_nat_literal_def)
qed

lemma digit_not_minus: "is_digit c \<Longrightarrow> c \<noteq> CHR ''-''"
  by (auto simp: is_digit_def)

lemma int_repr_literal: "is_int_literal (int_repr i) \<and> int_of_literal (int_repr i) = i
    \<and> list_all is_numchar (int_repr i) \<and> int_repr i \<noteq> []
    \<and> (hd (int_repr i) = CHR ''-'' \<or> is_digit (hd (int_repr i)))"
proof (cases "i < 0")
  case True
  have "list_all is_numchar (dec (nat (- i)))"
    using dec_digits [of "nat (- i)"] by (simp add: list_all_iff is_numchar_def)
  then show ?thesis using True dec_nat_literal [of "nat (- i)"] digits_val_dec [of "nat (- i)"]
    by (simp add: int_repr_def is_int_literal_def int_of_literal_def is_numchar_def)
next
  case False
  obtain c r where cr: "dec (nat i) = c # r" using dec_nonempty [of "nat i"] by (cases "dec (nat i)") auto
  have dc: "is_digit c" using dec_digits [of "nat i"] cr by simp
  then have nm: "c \<noteq> CHR ''-''" by (rule digit_not_minus)
  have "list_all is_numchar (dec (nat i))"
    using dec_digits [of "nat i"] by (simp add: list_all_iff is_numchar_def)
  then show ?thesis using False dec_nat_literal [of "nat i"] digits_val_dec [of "nat i"] cr dc nm
    by (simp add: int_repr_def is_int_literal_def int_of_literal_def)
qed

lemma delimited_not_numchar: "delimited rest \<Longrightarrow> rest = [] \<or> \<not> is_numchar (hd rest)"
  by (cases rest) (auto simp: delimited_def is_numchar_def is_digit_def)

lemma takeWhile_token:
  assumes "list_all P tok" "rest = [] \<or> \<not> P (hd rest)"
  shows "takeWhile P (tok @ rest) = tok \<and> dropWhile P (tok @ rest) = rest"
proof -
  have "takeWhile P rest = []" "dropWhile P rest = rest" using assms(2) by (cases rest; simp)+
  then show ?thesis using assms(1) by (simp add: list_all_iff takeWhile_append2 dropWhile_append2)
qed

lemma scan_number_int:
  assumes "delimited rest"
  shows "scan_number fp (int_repr i @ rest) = Some (VInt i, rest)"
  using takeWhile_token [of is_numchar "int_repr i" rest] int_repr_literal [of i]
    delimited_not_numchar [OF assms]
  by (simp add: scan_number_def)

lemma scan_number_float:
  assumes "delimited rest" "float_token tok" "fp tok = Some q"
  shows "scan_number fp (tok @ rest) = Some (VFloat q, rest)"
  using takeWhile_token [of is_numchar tok rest] assms delimited_not_numchar [OF assms(1)]
  by (simp add: scan_number_def float_token_def)

lemma hex_val_digit: "d < 16 \<Longrightarrow> hex_val (hex_digit d) = Some d"
proof -
  assume d: "d < 16"
  show ?thesis
  proof (cases "d < 10")
    case True
    then show ?thesis by (simp add: hex_val_def hex_digit_def)
  next
    case False
    then have "of_char (char_of (87 + d)) = 87 + d" using d by simp
    then show ?thesis using False d by (simp add: hex_val_def hex_digit_def)
  qed
qed

lemma hex_val_zero: "hex_val (CHR ''0'') = Some 0"
  by (simp add: hex_val_def)

lemma of_char_bound: "(of_char (c :: char) :: nat) < 256"
  by (rule nat_of_char_less_256)

lemma scan_unicode_escape:
  "scan_string acc ([CHR 0x5C, CHR ''u'', CHR ''0'', CHR ''0''] @ hex2 (of_char c) @ t) = scan_string (acc @ [c]) t"
proof -
  let ?n = "of_char c :: nat"
  have n: "?n < 256" by (rule of_char_bound)
  have hi: "?n div 16 mod 16 < 16" and lo: "?n mod 16 < 16" by simp_all
  have "?n < 16 * 16" using n by simp
  then have "?n div 16 < 16" by (rule less_mult_imp_div_less)
  then have "?n div 16 mod 16 = ?n div 16" by simp
  then have "16 * (?n div 16 mod 16) + ?n mod 16 = ?n" by simp
  then have same: "char_of (16 * (?n div 16 mod 16) + ?n mod 16) = c" by simp
  show ?thesis
    using hex_val_digit [OF hi] hex_val_digit [OF lo] hex_val_zero same
    by (simp add: hex2_def)
qed

lemma scan_escape: "scan_string acc (json_escape_char c @ t) = scan_string (acc @ [c]) t"
proof -
  let ?n = "of_char c :: nat"
  consider (quote) "c = CHR 0x22" | (bs) "c = CHR 0x5C" | (nl) "?n = 10" | (cr) "?n = 13" | (tab) "?n = 9"
    | (b) "?n = 8" | (f) "?n = 12"
    | (u) "c \<noteq> CHR 0x22" "c \<noteq> CHR 0x5C" "?n \<noteq> 10" "?n \<noteq> 13" "?n \<noteq> 9" "?n \<noteq> 8" "?n \<noteq> 12" "?n < 32 \<or> 126 < ?n"
    | (plain) "c \<noteq> CHR 0x22" "c \<noteq> CHR 0x5C" "32 \<le> ?n" "?n \<le> 126"
    by linarith
  then show ?thesis
  proof cases
    case quote
    then show ?thesis by (simp add: json_escape_char_def unescape_def)
  next
    case bs
    then show ?thesis by (simp add: json_escape_char_def unescape_def)
  next
    case nl
    then have "(of_char c :: nat) = of_char (CHR 0x0A)" by simp
    then have "c = CHR 0x0A" by (simp only: of_char_eq_iff)
    then show ?thesis by (simp add: json_escape_char_def unescape_def)
  next
    case cr
    then have "(of_char c :: nat) = of_char (CHR 0x0D)" by simp
    then have "c = CHR 0x0D" by (simp only: of_char_eq_iff)
    then show ?thesis by (simp add: json_escape_char_def unescape_def)
  next
    case tab
    then have "(of_char c :: nat) = of_char (CHR 0x09)" by simp
    then have "c = CHR 0x09" by (simp only: of_char_eq_iff)
    then show ?thesis by (simp add: json_escape_char_def unescape_def)
  next
    case b
    then have "(of_char c :: nat) = of_char (CHR 0x08)" by simp
    then have "c = CHR 0x08" by (simp only: of_char_eq_iff)
    then show ?thesis by (simp add: json_escape_char_def unescape_def)
  next
    case f
    then have "(of_char c :: nat) = of_char (CHR 0x0C)" by simp
    then have "c = CHR 0x0C" by (simp only: of_char_eq_iff)
    then show ?thesis by (simp add: json_escape_char_def unescape_def)
  next
    case u
    then have "json_escape_char c = [CHR 0x5C, CHR ''u'', CHR ''0'', CHR ''0''] @ hex2 ?n"
      by (simp add: json_escape_char_def Let_def)
    then show ?thesis using scan_unicode_escape [of acc c t] by simp
  next
    case plain
    then have "json_escape_char c = [c]" by (auto simp: json_escape_char_def Let_def)
    then show ?thesis using plain by simp
  qed
qed

lemma scan_string_escaped:
  "scan_string acc (concat (map json_escape_char s) @ CHR 0x22 # rest) = Some (acc @ s, rest)"
proof (induction s arbitrary: acc)
  case Nil
  show ?case by simp
next
  case (Cons c s)
  have "scan_string acc (concat (map json_escape_char (c # s)) @ CHR 0x22 # rest)
      = scan_string acc (json_escape_char c @ (concat (map json_escape_char s) @ CHR 0x22 # rest))"
    by simp
  also have "\<dots> = scan_string (acc @ [c]) (concat (map json_escape_char s) @ CHR 0x22 # rest)"
    by (rule scan_escape)
  also have "\<dots> = Some ((acc @ [c]) @ s, rest)" by (rule Cons.IH)
  finally show ?case by simp
qed

lemma parse_value:
  "parse_json fp PValue s =
     (case skip_ws s of
        [] \<Rightarrow> None
      | c # r \<Rightarrow>
          if c = CHR ''['' then
            (case skip_ws r of
               [] \<Rightarrow> None
             | c' # r' \<Rightarrow> if c' = CHR '']'' then Some (VList [], r') else parse_json fp (PElements []) (c' # r'))
          else if c = CHR ''{'' then
            (case skip_ws r of
               [] \<Rightarrow> None
             | c' # r' \<Rightarrow> if c' = CHR ''}'' then Some (VDict [], r') else parse_json fp (PMembers []) (c' # r'))
          else if c = CHR 0x22 then map_option (\<lambda>(str, r'). (VStr str, r')) (scan_string [] r)
          else if take 4 (c # r) = ''null'' then Some (VNull PyNone, drop 4 (c # r))
          else if take 4 (c # r) = ''true'' then Some (VBool True, drop 4 (c # r))
          else if take 5 (c # r) = ''false'' then Some (VBool False, drop 5 (c # r))
          else if take 3 (c # r) = ''NaN'' then Some (VNull NaN, drop 3 (c # r))
          else if c = CHR ''-'' \<or> is_digit c then scan_number fp (c # r)
          else None)"
  by (subst parse_json.simps) simp

lemma parse_elements:
  "parse_json fp (PElements acc) s =
     Option.bind (parse_json fp PValue s) (\<lambda>(v, r).
       case skip_ws r of
         [] \<Rightarrow> None
       | c # r' \<Rightarrow>
           if c = CHR '','' then parse_json fp (PElements (acc @ [v])) (skip_ws r')
           else if c = CHR '']'' then Some (VList (acc @ [v]), r')
           else None)"
  by (subst parse_json.simps) simp

lemma parse_members:
  "parse_json fp (PMembers acc) s =
     (case s of
        [] \<Rightarrow> None
      | q # s1 \<Rightarrow>
          if q = CHR 0x22 then
            Option.bind (scan_string [] s1) (\<lambda>(k, r).
              case skip_ws r of
                [] \<Rightarrow> None
              | c # r1 \<Rightarrow>
                  if c = CHR '':'' then
                    Option.bind (parse_json fp PValue r1) (\<lambda>(v, r2).
                      case skip_ws r2 of
                        [] \<Rightarrow> None
                      | c' # r3 \<Rightarrow>
                          if c' = CHR '','' then parse_json fp (PMembers (dict_set acc k v)) (skip_ws r3)
                          else if c' = CHR ''}'' then Some (VDict (dict_set acc k v), r3)
                          else None)
                  else None)
          else None)"
  by (subst parse_json.simps) simp

lemma skip_ws_non_ws [simp]: "\<not> is_ws c \<Longrightarrow> skip_ws (c # r) = c # r"
  by (simp add: skip_ws_def)

lemma skip_ws_space [simp]: "skip_ws (CHR '' '' # s) = skip_ws s"
  by (simp add: skip_ws_def is_ws_def)

lemma skip_ws_Nil [simp]: "skip_ws [] = []"
  by (simp add: skip_ws_def)

lemma parse_value_space: "parse_json fp PValue (CHR '' '' # s) = parse_json fp PValue s"
  by (simp add: parse_value [of fp "CHR '' '' # s"] parse_value [of fp s])

lemma value_start_props:
  "value_start c \<Longrightarrow> \<not> is_ws c \<and> c \<noteq> CHR '']'' \<and> c \<noteq> CHR ''}'' \<and> c \<noteq> CHR '',''"
  by (auto simp: value_start_def is_ws_def is_digit_def)

lemma encode_start:
  assumes "json_serializable v" "floats_decodable fr fp v"
  shows "\<exists>c r. json_encode fr v = c # r \<and> value_start c"
proof (cases v)
  case (VNull n)
  then show ?thesis using assms(1) by (cases n) (simp_all add: value_start_def)
next
  case (VBool b)
  then show ?thesis by (simp add: value_start_def)
next
  case (VInt i)
  obtain c r where "int_repr i = c # r" using int_repr_literal [of i] by (cases "int_repr i") auto
  then show ?thesis using VInt int_repr_literal [of i] by (auto simp: value_start_def)
next
  case (VFloat q)
  obtain c r where "fr q = c # r" using assms(2) VFloat by (cases "fr q") (auto simp: float_token_def)
  then show ?thesis using VFloat assms(2) by (auto simp: value_start_def float_token_def)
next
  case (VStr s)
  then show ?thesis by (simp add: json_quote_def value_start_def)
next
  case (VTimestamp t)
  then show ?thesis using assms(1) by simp
next
  case (VDict kvs)
  then show ?thesis by (simp add: value_start_def)
next
  case (VList xs)
  then show ?thesis by (simp add: value_start_def)
qed

lemma parse_scalar_literals:
  "parse_json fp PValue (''null'' @ rest) = Some (VNull PyNone, rest)"
  "parse_json fp PValue (''NaN'' @ rest) = Some (VNull NaN, rest)"
  "parse_json fp PValue (''true'' @ rest) = Some (VBool True, rest)"
  "parse_json fp PValue (''false'' @ rest) = Some (VBool False, rest)"
  by (simp_all add: parse_value is_ws_def)

lemma number_start_not_literal:
  assumes "c = CHR ''-'' \<or> is_digit c"
  shows "\<not> is_ws c \<and> c \<noteq> CHR ''['' \<and> c \<noteq> CHR ''{'' \<and> c \<noteq> CHR 0x22
         \<and> c \<noteq> CHR ''n'' \<and> c \<noteq> CHR ''t'' \<and> c \<noteq> CHR ''f'' \<and> c \<noteq> CHR ''N''"
  using assms by (auto simp: is_ws_def is_digit_def)

lemma parse_number_token:
  assumes "tok = c # r" "c = CHR ''-'' \<or> is_digit c"
  shows "parse_json fp PValue (tok @ rest) = scan_number fp (tok @ rest)"
  using number_start_not_literal [OF assms(2)] assms
  by (simp add: parse_value)

lemma parse_int:
  assumes "delimited rest"
  shows "parse_json fp PValue (int_repr i @ rest) = Some (VInt i, rest)"
proof -
  obtain c r where cr: "int_repr i = c # r" using int_repr_literal [of i] by (cases "int_repr i") auto
  have "c = CHR ''-'' \<or> is_digit c" using int_repr_literal [of i] cr by simp
  then show ?thesis using parse_number_token [OF cr, of fp rest] scan_number_int [OF assms] by simp
qed

lemma parse_float:
  assumes "delimited rest" "float_token tok" "fp tok = Some q"
  shows "parse_json fp PValue (tok @ rest) = Some (VFloat q, rest)"
proof -
  obtain c r where cr: "tok = c # r" using assms(2) by (cases tok) (auto simp: float_token_def)
  have "c = CHR ''-'' \<or> is_digit c" using assms(2) cr by (simp add: float_token_def)
  then show ?thesis
    using parse_number_token [OF cr, of fp rest] scan_number_float [of rest tok fp q] assms by simp
qed

lemma parse_string:
  "parse_json fp PValue (json_quote s @ rest) = Some (VStr s, rest)"
  by (simp add: parse_value json_quote_def is_ws_def scan_string_escaped)

lemma parse_elements_encoded:
  assumes "\<And>x rest. x \<in> set xs \<Longrightarrow> delimited rest \<Longrightarrow>
             parse_json fp PValue (json_encode fr x @ rest) = Some (sorted_keys x, rest)"
    and "\<And>x. x \<in> set xs \<Longrightarrow> \<exists>c r. json_encode fr x = c # r \<and> value_start c"
    and "xs \<noteq> []"
  shows "parse_json fp (PElements acc) (join '', '' (map (json_encode fr) xs) @ '']'' @ rest)
           = Some (VList (acc @ map sorted_keys xs), rest)"
  using assms
proof (induction xs arbitrary: acc)
  case Nil
  then show ?case by simp
next
  case (Cons x xs)
  show ?case
  proof (cases xs)
    case Nil
    have d: "delimited ('']'' @ rest)" by (simp add: delimited_def)
    have "parse_json fp PValue (json_encode fr x @ '']'' @ rest) = Some (sorted_keys x, '']'' @ rest)"
      using Cons.prems(1) [of x, OF _ d] by simp
    then show ?thesis using Nil
      by (simp add: parse_elements [of fp acc] is_ws_def)
  next
    case (Cons y ys)
    let ?J = "join '', '' (map (json_encode fr) xs)"
    obtain c r where cr: "json_encode fr y = c # r" "value_start c"
      using Cons.prems(2) [of y] Cons by auto
    then obtain r' where J: "?J = c # r'" using Cons by (cases ys) auto
    have nw: "\<not> is_ws c" using value_start_props [OF cr(2)] by simp
    have d: "delimited ('', '' @ ?J @ '']'' @ rest)" by (simp add: delimited_def)
    have first: "parse_json fp PValue (json_encode fr x @ '', '' @ ?J @ '']'' @ rest)
                   = Some (sorted_keys x, '', '' @ ?J @ '']'' @ rest)"
      using Cons.prems(1) [of x, OF _ d] by simp
    have rest_elems: "parse_json fp (PElements (acc @ [sorted_keys x])) (?J @ '']'' @ rest)
                   = Some (VList ((acc @ [sorted_keys x]) @ map sorted_keys xs), rest)"
      using Cons.IH [of "acc @ [sorted_keys x]"] Cons.prems(1,2) Cons by simp
    have sk: "skip_ws (CHR '' '' # ?J @ '']'' @ rest) = ?J @ '']'' @ rest"
      using J nw by simp
    have enc: "join '', '' (map (json_encode fr) (x # xs)) = json_encode fr x @ '', '' @ ?J"
      using Cons by simp
    show ?thesis
      unfolding enc using first rest_elems sk
      by (simp add: parse_elements [of fp acc] is_ws_def)
  qed
qed

lemma dict_set_new: "k \<notin> fst ` set acc \<Longrightarrow> dict_set acc k v = acc @ [(k, v)]"
  by (induction acc) auto

lemma parse_member:
  assumes "parse_json fp PValue (json_encode fr v @ R) = Some (sv, R)"
  shows "parse_json fp (PMembers acc) (json_quote k @ '': '' @ json_encode fr v @ R) =
     (case skip_ws R of
        [] \<Rightarrow> None
      | c' # r3 \<Rightarrow>
          if c' = CHR '','' then parse_json fp (PMembers (dict_set acc k sv)) (skip_ws r3)
          else if c' = CHR ''}'' then Some (VDict (dict_set acc k sv), r3)
          else None)"
proof -
  have s: "json_quote k @ '': '' @ json_encode fr v @ R
         = CHR 0x22 # (concat (map json_escape_char k) @ CHR 0x22 # ('': '' @ json_encode fr v @ R))"
    by (simp add: json_quote_def)
  have v: "parse_json fp PValue (CHR '' '' # json_encode fr v @ R) = Some (sv, R)"
    using assms by (simp add: parse_value_space)
  show ?thesis
    unfolding s
    by (simp add: parse_members [of fp acc] scan_string_escaped is_ws_def v)
qed

lemma parse_members_encoded:
  assumes "\<And>k v rest. (k, v) \<in> set kvs \<Longrightarrow> delimited rest \<Longrightarrow>
             parse_json fp PValue (json_encode fr v @ rest) = Some (sorted_keys v, rest)"
    and "kvs \<noteq> []" and "distinct (map fst kvs)" and "fst ` set acc \<inter> fst ` set kvs = {}"
  shows "parse_json fp (PMembers acc)
           (join '', '' (map (\<lambda>(k, v). json_quote k @ '': '' @ json_encode fr v) kvs) @ ''}'' @ rest)
           = Some (VDict (acc @ map (\<lambda>(k, v). (k, sorted_keys v)) kvs), rest)"
  using assms
proof (induction kvs arbitrary: acc)
  case Nil
  then show ?case by simp
next
  case (Cons kv kvs)
  obtain k v where kv: "kv = (k, v)" by (cases kv)
  have knew: "k \<notin> fst ` set acc" using Cons.prems(4) kv by auto
  have vals: "\<And>k' v' rest. (k', v') \<in> set kvs \<Longrightarrow> delimited rest \<Longrightarrow>
             parse_json fp PValue (json_encode fr v' @ rest) = Some (sorted_keys v', rest)"
  proof -
    fix k' v' rest assume "(k', v') \<in> set kvs" "delimited rest"
    then show "parse_json fp PValue (json_encode fr v' @ rest) = Some (sorted_keys v', rest)"
      using Cons.prems(1) [of k' v' rest] by simp
  qed
  have dk: "distinct (map fst kvs)" using Cons.prems(3) by simp
  show ?case
  proof (cases "kvs = []")
    case True
    have d: "delimited (''}'' @ rest)" by (simp add: delimited_def)
    have val: "parse_json fp PValue (json_encode fr v @ ''}'' @ rest) = Some (sorted_keys v, ''}'' @ rest)"
      using Cons.prems(1) [of k v, OF _ d] kv by simp
    show ?thesis
      using parse_member [OF val, of acc k] True kv knew
      by (simp add: is_ws_def dict_set_new)
  next
    case False
    let ?J = "join '', '' (map (\<lambda>(k, v). json_quote k @ '': '' @ json_encode fr v) kvs)"
    obtain y ys where yys: "kvs = y # ys" using False by (cases kvs) auto
    obtain r' where J: "?J = CHR 0x22 # r'"
      using yys by (cases y; cases ys) (auto simp: json_quote_def)
    have d: "delimited ('', '' @ ?J @ ''}'' @ rest)" by (simp add: delimited_def)
    have val: "parse_json fp PValue (json_encode fr v @ '', '' @ ?J @ ''}'' @ rest)
                 = Some (sorted_keys v, '', '' @ ?J @ ''}'' @ rest)"
      using Cons.prems(1) [of k v, OF _ d] kv by simp
    have disj: "fst ` set (acc @ [(k, sorted_keys v)]) \<inter> fst ` set kvs = {}"
      using Cons.prems(3,4) kv by auto
    have rest_members: "parse_json fp (PMembers (acc @ [(k, sorted_keys v)])) (?J @ ''}'' @ rest)
                 = Some (VDict ((acc @ [(k, sorted_keys v)]) @ map (\<lambda>(k, v). (k, sorted_keys v)) kvs), rest)"
      using vals False dk disj by (rule Cons.IH)
    have sk: "skip_ws (CHR '' '' # ?J @ ''}'' @ rest) = ?J @ ''}'' @ rest"
      using J by (simp add: is_ws_def)
    have enc: "join '', '' (map (\<lambda>(k, v). json_quote k @ '': '' @ json_encode fr v) (kv # kvs))
                 = json_quote k @ '': '' @ json_encode fr v @ '', '' @ ?J"
      using yys kv by simp
    have step: "parse_json fp (PMembers acc) (json_quote k @ '': '' @ json_encode fr v @ '', '' @ ?J @ ''}'' @ rest)
                 = parse_json fp (PMembers (acc @ [(k, sorted_keys v)])) (?J @ ''}'' @ rest)"
      using parse_member [OF val, of acc k] sk knew by (simp add: is_ws_def dict_set_new)
    show ?thesis
      unfolding enc using step rest_members kv by simp
  qed
qed

lemma join_head: "f x = c # r \<Longrightarrow> \<exists>r'. join sep (map f (x # xs)) = c # r'"
  by (cases xs) simp_all

lemma parse_encoded:
  assumes "json_serializable v" "floats_decodable fr fp v" "distinct_keys v" "delimited rest"
  shows "parse_json fp PValue (json_encode fr v @ rest) = Some (sorted_keys v, rest)"
  using assms
proof (induction v arbitrary: rest)
  case (VNull n)
  then show ?case using parse_scalar_literals(1,2) [of fp rest] by (cases n) simp_all
next
  case (VBool b)
  then show ?case using parse_scalar_literals(3,4) [of fp rest] by simp
next
  case (VInt i)
  then show ?case by (simp add: parse_int)
next
  case (VFloat q)
  then show ?case by (simp add: parse_float)
next
  case (VStr s)
  then show ?case by (simp add: parse_string)
next
  case (VTimestamp t)
  then show ?case by simp
next
  case (VList xs)
  have vals: "\<And>x rest. x \<in> set xs \<Longrightarrow> delimited rest \<Longrightarrow>
             parse_json fp PValue (json_encode fr x @ rest) = Some (sorted_keys x, rest)"
    using VList by (simp add: list_all_iff)
  have heads: "\<And>x. x \<in> set xs \<Longrightarrow> \<exists>c r. json_encode fr x = c # r \<and> value_start c"
  proof -
    fix x assume "x \<in> set xs"
    then have "json_serializable x" "floats_decodable fr fp x" using VList.prems by (simp_all add: list_all_iff)
    then show "\<exists>c r. json_encode fr x = c # r \<and> value_start c" by (rule encode_start)
  qed
  show ?case
  proof (cases xs)
    case Nil
    then show ?thesis by (simp add: parse_value is_ws_def)
  next
    case (Cons x xs')
    then obtain c r where cr: "json_encode fr x = c # r" "value_start c" using heads [of x] by auto
    obtain r' where J: "join '', '' (map (json_encode fr) xs) = c # r'"
      using join_head [of "json_encode fr" x c r "'', ''" xs'] cr(1) Cons by auto
    have c: "\<not> is_ws c" "c \<noteq> CHR '']''" using value_start_props [OF cr(2)] by simp_all
    have ne: "xs \<noteq> []" using Cons by simp
    have el: "parse_json fp (PElements []) (join '', '' (map (json_encode fr) xs) @ '']'' @ rest)
            = Some (VList ([] @ map sorted_keys xs), rest)"
      using vals heads ne by (rule parse_elements_encoded)
    have "parse_json fp PValue (CHR ''['' # (c # r') @ '']'' @ rest)
            = parse_json fp (PElements []) ((c # r') @ '']'' @ rest)"
      using c by (simp add: parse_value [of fp "CHR ''['' # _"] is_ws_def)
    then show ?thesis using el J by simp
  qed
next
  case (VDict kvs)
  let ?S = "sort_key fst kvs"
  let ?item = "\<lambda>(k, v). json_quote k @ '': '' @ json_encode fr v"
  have vals: "\<And>k v rest. (k, v) \<in> set ?S \<Longrightarrow> delimited rest \<Longrightarrow>
             parse_json fp PValue (json_encode fr v @ rest) = Some (sorted_keys v, rest)"
  proof -
    fix k v rest assume kv: "(k, v) \<in> set ?S" and d: "delimited rest"
    have m: "(k, v) \<in> set kvs" using kv by simp
    have "json_serializable v" "floats_decodable fr fp v" "distinct_keys v"
      using VDict.prems m by (auto simp: list_all_iff)
    then show "parse_json fp PValue (json_encode fr v @ rest) = Some (sorted_keys v, rest)"
      using VDict.IH [of "(k, v)" v rest] m d by simp
  qed
  have dk: "distinct (map fst ?S)" using VDict.prems(3) by (simp add: distinct_keys_sort)
  show ?case
  proof (cases "?S = []")
    case True
    then show ?thesis by (simp add: parse_value is_ws_def)
  next
    case False
    obtain y ys where S: "?S = y # ys" using False by (cases ?S) auto
    obtain r' where J: "join '', '' (map ?item ?S) = CHR 0x22 # r'"
      unfolding S by (cases y; cases ys) (auto simp: json_quote_def)
    have mem: "parse_json fp (PMembers []) (join '', '' (map ?item ?S) @ ''}'' @ rest)
            = Some (VDict ([] @ map (\<lambda>(k, v). (k, sorted_keys v)) ?S), rest)"
    proof (rule parse_members_encoded [OF vals False dk])
      show "fst ` set ([] :: (string \<times> val) list) \<inter> fst ` set ?S = {}" by simp
    qed
    have "parse_json fp PValue (CHR ''{'' # (CHR 0x22 # r') @ ''}'' @ rest)
            = parse_json fp (PMembers []) ((CHR 0x22 # r') @ ''}'' @ rest)"
      by (simp add: parse_value [of fp "CHR ''{'' # _"] is_ws_def)
    then show ?thesis using mem J by simp
  qed
qed

lemma sorted_keys_equiv: "distinct_keys x \<Longrightarrow> key_order_equiv x (sorted_keys x)"
proof (induction x)
  case (VList xs)
  then have "list_all2 key_order_equiv xs (map sorted_keys xs)"
    by (simp add: list_all2_conv_all_nth list_all_iff)
  then show ?case by (simp add: key_order_equiv.lists)
next
  case (VDict kvs)
  let ?b = "map (\<lambda>(k, v). (k, sorted_keys v)) (sort_key fst kvs)"
  have fstb: "map fst ?b = map fst (sort_key fst kvs)" by (simp add: comp_def case_prod_beta)
  have a: "distinct (map fst kvs)" using VDict.prems by simp
  have b: "distinct (map fst ?b)" unfolding fstb using a by (simp add: distinct_keys_sort)
  have c: "length kvs = length ?b" by simp
  have d: "\<forall>k v. (k, v) \<in> set kvs \<longrightarrow> (\<exists>w. (k, w) \<in> set ?b \<and> key_order_equiv v w)"
  proof (intro allI impI)
    fix k v assume m: "(k, v) \<in> set kvs"
    have "distinct_keys v" using VDict.prems m by (auto simp: list_all_iff)
    then have "key_order_equiv v (sorted_keys v)" using VDict.IH [of "(k, v)" v] m by simp
    moreover have "(k, sorted_keys v) \<in> set ?b" using m by force
    ultimately show "\<exists>w. (k, w) \<in> set ?b \<and> key_order_equiv v w" by blast
  qed
  show ?case using key_order_equiv.dicts [OF a b c d] by simp
qed (simp_all add: key_order_equiv.scalar)

section \<open>C4: the round trip through JSON\<close>

text \<open>
  C4, as the code has it. Let \<open>x\<close> be a nested value that json can encode, with distinct
  keys in each of its dicts, whose floats are written by \<open>repr\<close> as number tokens that
  \<open>float\<close> reads back. Then the serializer returns the JSON text of \<open>x\<close>, and decoding
  that text yields \<open>x\<close> with the items of every dict in key order: the original
  structure up to the order of keys, which the equality of dicts ignores.
\<close>

theorem json_round_trip:
  assumes "is_nested x" and "json_serializable x" and "distinct_keys x"
    and "floats_decodable fr fp x"
  shows "safe_serialize fr x = VStr (json_encode fr x)
       \<and> json_loads fp (json_encode fr x) = Some (sorted_keys x)
       \<and> key_order_equiv x (sorted_keys x)"
proof -
  have d: "delimited []" by (simp add: delimited_def)
  have "parse_json fp PValue (json_encode fr x @ []) = Some (sorted_keys x, [])"
    using assms(2) assms(4) assms(3) d by (rule parse_encoded)
  then have l: "json_loads fp (json_encode fr x) = Some (sorted_keys x)"
    by (simp add: json_loads_def)
  have s: "safe_serialize fr x = VStr (json_encode fr x)"
    using assms(1,2) by (simp add: safe_serialize_def json_dumps_def)
  show ?thesis using s l sorted_keys_equiv [OF assms(3)] by simp
qed

theorem json_round_trip_witness:
  "is_nested nested_sample \<and> json_serializable nested_sample \<and> distinct_keys nested_sample
   \<and> floats_decodable repr_sample float_sample nested_sample
   \<and> safe_serialize repr_sample nested_sample = VStr (json_encode repr_sample nested_sample)
   \<and> json_loads float_sample (json_encode repr_sample nested_sample) =
        Some (VList [VInt (- 12), VFloat (3 / 2),
                     VDict [(''a'', VStr [CHR ''x'', CHR 0x22, CHR ''y'']), (''b'', VNull PyNone)],
                     VBool True])"
proof -
  have a: "is_nested nested_sample" "json_serializable nested_sample" "distinct_keys nested_sample"
    by (simp_all add: nested_sample_def)
  have b: "floats_decodable repr_sample float_sample nested_sample"
    by code_simp
  have c: "sorted_keys nested_sample =
        VList [VInt (- 12), VFloat (3 / 2),
                     VDict [(''a'', VStr [CHR ''x'', CHR 0x22, CHR ''y'']), (''b'', VNull PyNone)],
                     VBool True]"
    by code_simp
  show ?thesis using json_round_trip [OF a b] a b c by simp
qed

text \<open>
  C4 fails as stated: json cannot encode the timestamp in \<open>stamped_list\<close>, the
  serializer returns its \<open>str\<close>, and that text is not JSON.
\<close>

theorem fallback_text_is_not_json:
  "is_nested stamped_list
   \<and> safe_serialize (\<lambda>q. []) stamped_list = VStr (py_str (\<lambda>q. []) stamped_list)
   \<and> json_loads (\<lambda>s. None) (py_str (\<lambda>q. []) stamped_list) = None"
  by code_simp

end
